theory Spec2Isabelle
  imports Main "HOL-Library.AList"
begin

section \<open>Values\<close>

text \<open>
  Scalar property values (\<^verbatim>\<open>EntityPropertyType\<close> of types.ts, plus \<^verbatim>\<open>null\<close>, which the
  repository writes for an undefined property and the drivers return for an absent key).
  Numbers are integers; \<^verbatim>\<open>Date\<close> values are left out.  Identifiers
  (\<^verbatim>\<open>EntityIdentifierType = string | number\<close>) are scalars.
\<close>

datatype scalar = Undefined | Null | Bool bool | Num int | Str string

text \<open>What a driver reads and writes: a scalar, or an array of identifiers (an index).\<close>

datatype jsval = Scalar scalar | Array "scalar list"

text \<open>JavaScript truthiness (\<^verbatim>\<open>ToBoolean\<close>): every array is truthy, also the empty one.\<close>

fun truthy_scalar :: "scalar \<Rightarrow> bool" where
  "truthy_scalar Undefined = False"
| "truthy_scalar Null = False"
| "truthy_scalar (Bool b) = b"
| "truthy_scalar (Num n) = (n \<noteq> 0)"
| "truthy_scalar (Str s) = (s \<noteq> [])"

fun truthy :: "jsval \<Rightarrow> bool" where
  "truthy (Scalar x) = truthy_scalar x"
| "truthy (Array xs) = True"

text \<open>String conversion, as a template literal \<^verbatim>\<open>`${x}`\<close> performs it.\<close>

fun digits :: "nat \<Rightarrow> string" where
  "digits n = (if n < 10 then [''0123456789'' ! n]
               else digits (n div 10) @ [''0123456789'' ! (n mod 10)])"

declare digits.simps [simp del]

definition show_int :: "int \<Rightarrow> string" where
  "show_int i = (if i < 0 then CHR ''-'' # digits (nat (- i)) else digits (nat i))"

fun to_string :: "scalar \<Rightarrow> string" where
  "to_string Undefined = ''undefined''"
| "to_string Null = ''null''"
| "to_string (Bool b) = (if b then ''true'' else ''false'')"
| "to_string (Num n) = show_int n"
| "to_string (Str s) = s"

definition is_identifier :: "scalar \<Rightarrow> bool" where
  "is_identifier x = (case x of Str _ \<Rightarrow> True | Num _ \<Rightarrow> True | _ \<Rightarrow> False)"

section \<open>Errors\<close>

datatype error =
    NoSpecificationForClass string
  | NoSpecificationForTable string
  | ColumnNotFound string string
  | IndexConstraintViolation scalar string
  | NoDataFound scalar string
  | MissingIds string
  | InvalidIncludeKey string
  | MoreThanOneRecord
  | NoRecordFound
  | PropertyNotLoaded string
  | WhereOnRelationalProperty string
  | SpecificationAlreadyRegistered string
  | TableAlreadyMapped string string
  | TypeMismatch

section \<open>LocalStorageDriver\<close>

text \<open>
  An item of \<^verbatim>\<open>localStorage\<close> is a string.  The driver stores either the empty string
  or the text \<^verbatim>\<open>JSON.stringify\<close> gives; the JSON text is represented by the value
  \<^verbatim>\<open>JSON.parse\<close> yields for it.  \<^verbatim>\<open>JSON.stringify\<close> turns an \<^verbatim>\<open>undefined\<close> array
  element into \<^verbatim>\<open>null\<close>.  It is only reached for truthy values.
\<close>

datatype item = Text_empty | Text_json jsval

type_synonym localStorage = "string \<rightharpoonup> item"

fun JSON_stringify :: "jsval \<Rightarrow> item" where
  "JSON_stringify (Scalar x) = Text_json (Scalar x)"
| "JSON_stringify (Array xs) = Text_json (Array (map (\<lambda>x. if x = Undefined then Null else x) xs))"

fun JSON_parse :: "item \<Rightarrow> jsval" where
  "JSON_parse (Text_json v) = v"
| "JSON_parse Text_empty = Scalar Null"

definition keyPrefix :: string where
  "keyPrefix = ''indexorm::''"

definition driver_write :: "string \<Rightarrow> jsval \<Rightarrow> localStorage \<Rightarrow> localStorage" where
  "driver_write key v s = s(keyPrefix @ key \<mapsto> (if truthy v then JSON_stringify v else Text_empty))"

definition driver_read :: "string \<Rightarrow> localStorage \<Rightarrow> jsval" where
  "driver_read key s =
     (case s (keyPrefix @ key) of
        None \<Rightarrow> Scalar Null
      | Some Text_empty \<Rightarrow> Scalar Null
      | Some (Text_json v) \<Rightarrow> JSON_parse (Text_json v))"

definition driver_remove :: "string \<Rightarrow> localStorage \<Rightarrow> localStorage" where
  "driver_remove key s = s(keyPrefix @ key := None)"

section \<open>Class specifications and their registry\<close>

record RelationalProperty =
  name :: string
  rel_class :: string
  correspondingIdentifierProperty :: string
  isCollection :: bool

record ClassSpecification =
  spec_class :: string
  tableName :: string
  identifierProperty :: string
  nonRelationalProperties :: "string list"
  relationalProperties :: "RelationalProperty list"

text \<open>The registry: class name to specification, in registration order.\<close>

type_synonym registry = "(string \<times> ClassSpecification) list"

definition getSpecificationFor :: "registry \<Rightarrow> string \<Rightarrow> error + ClassSpecification" where
  "getSpecificationFor reg c =
     (case map_of reg c of
        None \<Rightarrow> Inl (NoSpecificationForClass c)
      | Some cs \<Rightarrow> Inr cs)"

definition getSpecificationByTableName :: "registry \<Rightarrow> string \<Rightarrow> error + ClassSpecification" where
  "getSpecificationByTableName reg t =
     (case find (\<lambda>x. tableName x = t) (map snd reg) of
        None \<Rightarrow> Inl (NoSpecificationForTable t)
      | Some cs \<Rightarrow> Inr cs)"

text \<open>
  \<^verbatim>\<open>register\<close> throws when the class already has a specification or the table
  is already mapped, and stores the specification otherwise.  (In the first case the
  exception is raised while the message is built, which reads a field
  \<^verbatim>\<open>registeredClass\<close> that a specification does not have; the registry is left
  as it was either way.)
\<close>

definition register :: "ClassSpecification \<Rightarrow> registry \<Rightarrow> error + registry" where
  "register cs reg =
     (case map_of reg (spec_class cs) of
        Some existingSpecification \<Rightarrow> Inl (SpecificationAlreadyRegistered (spec_class cs))
      | None \<Rightarrow>
         (case find (\<lambda>x. tableName x = tableName cs) (map snd reg) of
            Some alreadyMapped \<Rightarrow>
              Inl (TableAlreadyMapped (tableName cs) (spec_class alreadyMapped))
          | None \<Rightarrow> Inr (reg @ [(spec_class cs, cs)])))"

section \<open>DataDriver\<close>

definition getTableIndexKey :: "string \<Rightarrow> string" where
  "getTableIndexKey t = '':'' @ '':index-of:'' @ ('':'' @ t @ ''-identifiers:'') @ '':''"

definition getRelationIndexKey :: "string \<Rightarrow> string \<Rightarrow> string \<Rightarrow> scalar \<Rightarrow> string" where
  "getRelationIndexKey destinationTableName sourceTableName
       destinationIdPropertyNameOnSourceTable destinationIdOnSourceTable =
     '':'' @ '':index-of:'' @ ('':'' @ sourceTableName @ ''-identifiers:'') @
     '':which-has-one:'' @ ('':'' @ destinationTableName @ '':'') @ '':as:'' @
     ('':'' @ destinationIdPropertyNameOnSourceTable @ '':'') @ '':with-identifier:'' @
     ('':'' @ to_string destinationIdOnSourceTable @ '':'') @ '':''"

definition getDataKey :: "registry \<Rightarrow> string \<Rightarrow> scalar \<Rightarrow> string \<Rightarrow> error + string" where
  "getDataKey reg t index columnName =
     (case getSpecificationByTableName reg t of
        Inl e \<Rightarrow> Inl e
      | Inr classSpecification \<Rightarrow>
          if columnName \<notin> set (nonRelationalProperties classSpecification)
          then Inl (ColumnNotFound columnName t)
          else Inr (t @ '':'' @ to_string index @ '':'' @ columnName @ '';''))"

text \<open>
  Index cells are read as \<^verbatim>\<open>EntityIdentifierType[]\<close>.  A truthy value that is not an array
  is outside that declared type; the model reports it as \<open>TypeMismatch\<close>.
\<close>

definition getTableIndex :: "string \<Rightarrow> localStorage \<Rightarrow> error + scalar list" where
  "getTableIndex t s =
     (let index = driver_read (getTableIndexKey t) s in
      if truthy index
      then (case index of Array xs \<Rightarrow> Inr xs | Scalar _ \<Rightarrow> Inl TypeMismatch)
      else Inr [])"

definition getRelationIndex ::
  "string \<Rightarrow> string \<Rightarrow> string \<Rightarrow> scalar \<Rightarrow> localStorage \<Rightarrow> error + scalar list option" where
  "getRelationIndex d src f v s =
     (let relationIndex = driver_read (getRelationIndexKey d src f v) s in
      if truthy relationIndex
      then (case relationIndex of Array xs \<Rightarrow> Inr (Some xs) | Scalar _ \<Rightarrow> Inl TypeMismatch)
      else Inr None)"

definition addTableIndex ::
  "string \<Rightarrow> scalar \<Rightarrow> localStorage \<Rightarrow> (error + unit) \<times> localStorage" where
  "addTableIndex t identifier s =
     (let indexKey = getTableIndexKey t; index = driver_read indexKey s in
      if \<not> truthy index then (Inr (), driver_write indexKey (Array [identifier]) s)
      else (case index of
              Scalar _ \<Rightarrow> (Inl TypeMismatch, s)
            | Array xs \<Rightarrow>
                if identifier \<in> set xs then (Inl (IndexConstraintViolation identifier t), s)
                else (Inr (), driver_write indexKey (Array (xs @ [identifier])) s)))"

definition addRelationIndex ::
  "string \<Rightarrow> string \<Rightarrow> string \<Rightarrow> scalar \<Rightarrow> scalar \<Rightarrow> localStorage
     \<Rightarrow> (error + unit) \<times> localStorage" where
  "addRelationIndex d src f v identifier s =
     (let relationIndexKey = getRelationIndexKey d src f v;
          relationIndex = driver_read relationIndexKey s in
      if \<not> truthy relationIndex then (Inr (), driver_write relationIndexKey (Array [identifier]) s)
      else (case relationIndex of
              Scalar _ \<Rightarrow> (Inl TypeMismatch, s)
            | Array xs \<Rightarrow>
                if identifier \<in> set xs then (Inr (), s)
                else (Inr (), driver_write relationIndexKey (Array (xs @ [identifier])) s)))"

definition removeTableIndex ::
  "string \<Rightarrow> scalar \<Rightarrow> localStorage \<Rightarrow> (error + unit) \<times> localStorage" where
  "removeTableIndex t identifier s =
     (let indexKey = getTableIndexKey t; index = driver_read indexKey s in
      if \<not> truthy index then (Inr (), s)
      else (case index of
              Scalar _ \<Rightarrow> (Inl TypeMismatch, s)
            | Array xs \<Rightarrow> (Inr (), driver_write indexKey (Array (filter (\<lambda>x. x \<noteq> identifier) xs)) s)))"

definition removeRelationIndex ::
  "string \<Rightarrow> string \<Rightarrow> string \<Rightarrow> scalar \<Rightarrow> scalar \<Rightarrow> localStorage
     \<Rightarrow> (error + unit) \<times> localStorage" where
  "removeRelationIndex d src f v identifier s =
     (let relationIndexKey = getRelationIndexKey d src f v;
          relationIndex = driver_read relationIndexKey s in
      if \<not> truthy relationIndex then (Inr (), s)
      else (case relationIndex of
              Scalar _ \<Rightarrow> (Inl TypeMismatch, s)
            | Array xs \<Rightarrow>
                (Inr (), driver_write relationIndexKey (Array (filter (\<lambda>x. x \<noteq> identifier) xs)) s)))"

definition removeRelationIndexRecord ::
  "string \<Rightarrow> string \<Rightarrow> string \<Rightarrow> scalar \<Rightarrow> localStorage \<Rightarrow> localStorage" where
  "removeRelationIndexRecord d src f v s = driver_remove (getRelationIndexKey d src f v) s"

section \<open>Entities\<close>

text \<open>
  An entity instance as the repository receives it.  The property types of types.ts keep
  scalar properties (\<^verbatim>\<open>EntityPropertyType\<close>), singular related objects and collections of
  related objects apart, so the instance carries them in three association lists.  An
  absent scalar reads as \<^verbatim>\<open>undefined\<close>; an absent related object or collection is falsy.
  Instances are trees: no object is shared between two places of an instance.
\<close>

datatype entity =
  Entity (props: "(string \<times> scalar) list")
         (ones: "(string \<times> entity) list")
         (manys: "(string \<times> entity list) list")

definition get_prop :: "entity \<Rightarrow> string \<Rightarrow> scalar" where
  "get_prop e p = (case map_of (props e) p of None \<Rightarrow> Undefined | Some v \<Rightarrow> v)"

text \<open>\<^verbatim>\<open>Object.assign(instance, {[p]: v})\<close> and \<^verbatim>\<open>instance[p] = v\<close> for a scalar property.\<close>

definition assign_prop :: "string \<Rightarrow> scalar \<Rightarrow> entity \<Rightarrow> entity" where
  "assign_prop p v e = Entity (AList.update p v (props e)) (ones e) (manys e)"

fun esize :: "entity \<Rightarrow> nat" where
  "esize (Entity ps os ms) =
     Suc (sum_list (map (\<lambda>x. esize (snd x)) os)
          + sum_list (map (\<lambda>x. sum_list (map esize (snd x))) ms))"


lemma esize_ones: "map_of (ones e) n = Some r \<Longrightarrow> esize r < esize e"
proof (cases e)
  case (Entity ps os ms)
  assume "map_of (ones e) n = Some r"
  then have "(n, r) \<in> set os" using Entity by (auto dest: map_of_SomeD)
  then have "esize r \<le> sum_list (map (\<lambda>x. esize (snd x)) os)"
    by (induction os) auto
  then show ?thesis using Entity by simp
qed

lemma esize_manys: "map_of (manys e) n = Some rs \<Longrightarrow> sum_list (map esize rs) < esize e"
proof (cases e)
  case (Entity ps os ms)
  assume "map_of (manys e) n = Some rs"
  then have "(n, rs) \<in> set ms" using Entity by (auto dest: map_of_SomeD)
  then have "sum_list (map esize rs) \<le> sum_list (map (\<lambda>x. sum_list (map esize (snd x))) ms)"
    by (induction ms) auto
  then show ?thesis using Entity by simp
qed

lemma esize_assign_prop [simp]: "esize (assign_prop p v e) = esize e"
  by (cases e) (simp add: assign_prop_def)

fun writeProperties ::
  "registry \<Rightarrow> string \<Rightarrow> scalar \<Rightarrow> string list \<Rightarrow> entity \<Rightarrow> localStorage
     \<Rightarrow> (error + unit) \<times> localStorage" where
  "writeProperties reg t i [] inst s = (Inr (), s)"
| "writeProperties reg t i (property # properties) inst s =
     (case getDataKey reg t i property of
        Inl e \<Rightarrow> (Inl e, s)
      | Inr dataKey \<Rightarrow>
          (let dataToStore = (if get_prop inst property = Undefined then Null
                              else get_prop inst property)
           in writeProperties reg t i properties inst
                (driver_write dataKey (Scalar dataToStore) s)))"

function (sequential)
  createOrUpdate ::
    "registry \<Rightarrow> ClassSpecification \<Rightarrow> entity \<Rightarrow> localStorage \<Rightarrow> (error + scalar) \<times> localStorage"
and create ::
    "registry \<Rightarrow> ClassSpecification \<Rightarrow> entity \<Rightarrow> localStorage \<Rightarrow> (error + scalar) \<times> localStorage"
and update ::
    "registry \<Rightarrow> ClassSpecification \<Rightarrow> entity \<Rightarrow> localStorage \<Rightarrow> (error + unit) \<times> localStorage"
and handleRelationalProperties ::
    "registry \<Rightarrow> ClassSpecification \<Rightarrow> RelationalProperty list \<Rightarrow> entity \<Rightarrow> scalar
       \<Rightarrow> localStorage \<Rightarrow> (error + entity) \<times> localStorage"
and cascadeCollection ::
    "registry \<Rightarrow> ClassSpecification \<Rightarrow> string \<Rightarrow> scalar \<Rightarrow> entity list \<Rightarrow> localStorage
       \<Rightarrow> (error + unit) \<times> localStorage"
where
  "createOrUpdate reg cs inst s =
     (case getTableIndex (tableName cs) s of
        Inl e \<Rightarrow> (Inl e, s)
      | Inr index \<Rightarrow>
          (let identifierValue = get_prop inst (identifierProperty cs) in
           if identifierValue \<in> set index
           then (case update reg cs inst s of
                   (Inl e, s') \<Rightarrow> (Inl e, s')
                 | (Inr _, s') \<Rightarrow> (Inr identifierValue, s'))
           else create reg cs inst s))"
| "create reg cs inst s =
     (let identifierValue = get_prop inst (identifierProperty cs) in
      case handleRelationalProperties reg cs (relationalProperties cs) inst identifierValue s of
        (Inl e, s1) \<Rightarrow> (Inl e, s1)
      | (Inr inst1, s1) \<Rightarrow>
          (case addTableIndex (tableName cs) identifierValue s1 of
             (Inl e, s2) \<Rightarrow> (Inl e, s2)
           | (Inr _, s2) \<Rightarrow>
               (case writeProperties reg (tableName cs) identifierValue
                       (nonRelationalProperties cs) inst1 s2 of
                  (Inl e, s3) \<Rightarrow> (Inl e, s3)
                | (Inr _, s3) \<Rightarrow> (Inr identifierValue, s3))))"
| "update reg cs inst s =
     (let identifierValue = get_prop inst (identifierProperty cs) in
      case handleRelationalProperties reg cs (relationalProperties cs) inst identifierValue s of
        (Inl e, s1) \<Rightarrow> (Inl e, s1)
      | (Inr inst1, s1) \<Rightarrow>
          writeProperties reg (tableName cs) identifierValue (nonRelationalProperties cs) inst1 s1)"
| "handleRelationalProperties reg cs [] inst identifier s = (Inr inst, s)"
| "handleRelationalProperties reg cs (relationalProperty # rest) inst identifier s =
     (if \<not> isCollection relationalProperty then
        (case getSpecificationFor reg (rel_class relationalProperty) of
           Inl e \<Rightarrow> (Inl e, s)
         | Inr relatedClassSpecification \<Rightarrow>
             (let idOnSource = get_prop inst (correspondingIdentifierProperty relationalProperty) in
              case (case map_of (ones inst) (name relationalProperty) of
                      None \<Rightarrow> (Inr (idOnSource, inst), s)
                    | Some relatedData \<Rightarrow>
                        (let idOnSource1 =
                               (if \<not> truthy_scalar idOnSource
                                then get_prop relatedData (identifierProperty relatedClassSpecification)
                                else idOnSource);
                             inst1 =
                               (if \<not> truthy_scalar idOnSource
                                then assign_prop (correspondingIdentifierProperty relationalProperty)
                                       idOnSource1 inst
                                else inst)
                         in case createOrUpdate reg relatedClassSpecification relatedData s of
                              (Inl e, s1) \<Rightarrow> (Inl e, s1)
                            | (Inr _, s1) \<Rightarrow> (Inr (idOnSource1, inst1), s1))) of
                (Inl e, s1) \<Rightarrow> (Inl e, s1)
              | (Inr (idOnSource1, inst1), s1) \<Rightarrow>
                  (case addRelationIndex (tableName relatedClassSpecification) (tableName cs)
                          (correspondingIdentifierProperty relationalProperty)
                          idOnSource1 identifier s1 of
                     (Inl e, s2) \<Rightarrow> (Inl e, s2)
                   | (Inr _, s2) \<Rightarrow> handleRelationalProperties reg cs rest inst1 identifier s2)))
      else
        (case map_of (manys inst) (name relationalProperty) of
           None \<Rightarrow> handleRelationalProperties reg cs rest inst identifier s
         | Some relatedDataList \<Rightarrow>
             if relatedDataList = [] then handleRelationalProperties reg cs rest inst identifier s
             else
               (case getSpecificationFor reg (rel_class relationalProperty) of
                  Inl e \<Rightarrow> (Inl e, s)
                | Inr relatedClassSpecification \<Rightarrow>
                    (case cascadeCollection reg relatedClassSpecification
                            (correspondingIdentifierProperty relationalProperty)
                            (get_prop inst (identifierProperty cs)) relatedDataList s of
                       (Inl e, s1) \<Rightarrow> (Inl e, s1)
                     | (Inr _, s1) \<Rightarrow> handleRelationalProperties reg cs rest inst identifier s1))))"
| "cascadeCollection reg rcs fk idOfSource [] s = (Inr (), s)"
| "cascadeCollection reg rcs fk idOfSource (relatedData # others) s =
     (case createOrUpdate reg rcs (assign_prop fk idOfSource relatedData) s of
        (Inl e, s1) \<Rightarrow> (Inl e, s1)
      | (Inr _, s1) \<Rightarrow> cascadeCollection reg rcs fk idOfSource others s1)"
  by pat_completeness auto
termination
  apply (relation "inv_image (less_than <*lex*> less_than <*lex*> less_than)
     (\<lambda>x. case x of
         Inl (Inl (reg, cs, inst, s)) \<Rightarrow> (esize inst, 3::nat, 0::nat)
       | Inl (Inr (reg, cs, inst, s)) \<Rightarrow> (esize inst, 2, 0)
       | Inr (Inl (reg, cs, inst, s)) \<Rightarrow> (esize inst, 2, 0)
       | Inr (Inr (Inl (reg, cs, rps, inst, i, s))) \<Rightarrow> (esize inst, 1, length rps)
       | Inr (Inr (Inr (reg, rcs, fk, i, xs, s))) \<Rightarrow> (sum_list (map esize xs), 4, length xs))")
  apply (auto simp: esize_ones esize_manys Let_def split: option.splits prod.splits sum.splits if_splits)
  done


text \<open>The two loops of \<^verbatim>\<open>delete\<close>: over the scalar properties, then over the relations.\<close>

fun removeProperties ::
  "registry \<Rightarrow> string \<Rightarrow> scalar \<Rightarrow> string list \<Rightarrow> localStorage
     \<Rightarrow> (error + unit) \<times> localStorage" where
  "removeProperties reg t i [] s = (Inr (), s)"
| "removeProperties reg t i (property # properties) s =
     (case getDataKey reg t i property of
        Inl e \<Rightarrow> (Inl e, s)
      | Inr dataKey \<Rightarrow> removeProperties reg t i properties (driver_remove dataKey s))"

fun removeRelations ::
  "registry \<Rightarrow> ClassSpecification \<Rightarrow> RelationalProperty list \<Rightarrow> entity \<Rightarrow> scalar
     \<Rightarrow> localStorage \<Rightarrow> (error + unit) \<times> localStorage" where
  "removeRelations reg cs [] inst identifierValue s = (Inr (), s)"
| "removeRelations reg cs (relationalProperty # rest) inst identifierValue s =
     (case getSpecificationFor reg (rel_class relationalProperty) of
        Inl e \<Rightarrow> (Inl e, s)
      | Inr relatedClassSpecification \<Rightarrow>
          if \<not> isCollection relationalProperty then
            (let identifierOfRelatedTable =
                   get_prop inst (correspondingIdentifierProperty relationalProperty) in
             case removeRelationIndex (tableName relatedClassSpecification) (tableName cs)
                    (correspondingIdentifierProperty relationalProperty)
                    identifierOfRelatedTable identifierValue s of
               (Inl e, s1) \<Rightarrow> (Inl e, s1)
             | (Inr _, s1) \<Rightarrow> removeRelations reg cs rest inst identifierValue s1)
          else
            removeRelations reg cs rest inst identifierValue
              (removeRelationIndexRecord (tableName cs) (tableName relatedClassSpecification)
                 (correspondingIdentifierProperty relationalProperty) identifierValue s))"

definition delete ::
  "registry \<Rightarrow> ClassSpecification \<Rightarrow> entity \<Rightarrow> localStorage \<Rightarrow> (error + unit) \<times> localStorage" where
  "delete reg cs inst s =
     (case getTableIndex (tableName cs) s of
        Inl e \<Rightarrow> (Inl e, s)
      | Inr index \<Rightarrow>
          (let identifierValue = get_prop inst (identifierProperty cs) in
           if identifierValue \<notin> set index then (Inr (), s)
           else
             (case removeTableIndex (tableName cs) identifierValue s of
                (Inl e, s1) \<Rightarrow> (Inl e, s1)
              | (Inr _, s1) \<Rightarrow>
                  (case removeProperties reg (tableName cs) identifierValue
                          (nonRelationalProperties cs) s1 of
                     (Inl e, s2) \<Rightarrow> (Inl e, s2)
                   | (Inr _, s2) \<Rightarrow>
                       removeRelations reg cs (relationalProperties cs) inst identifierValue s2))))"


section \<open>Fetched objects: the Shadow proxy\<close>

text \<open>
  A fetched object is a \<^verbatim>\<open>Proxy\<close> over the plain object \<open>target\<close> built from the stored
  scalars; \<open>excluded\<close> is the set \<^verbatim>\<open>excludedNavigationalProperties\<close>.  A property of a
  fetched object holds a stored value, a fetched object or an array of fetched objects.
\<close>

datatype rvalue = RVal jsval | RObj shadow | RArr "shadow list"
and shadow = Shadow (target: "(string \<times> rvalue) list") (excluded: "string list")

definition Shadow_for :: "(string \<times> rvalue) list \<Rightarrow> string list \<Rightarrow> shadow" where
  "Shadow_for source navigationalProperties = Shadow source navigationalProperties"

text \<open>Reading a property of a plain object: \<^verbatim>\<open>undefined\<close> when it is absent.\<close>

definition object_get :: "(string \<times> rvalue) list \<Rightarrow> string \<Rightarrow> rvalue" where
  "object_get obj p = (case map_of obj p of None \<Rightarrow> RVal (Scalar Undefined) | Some v \<Rightarrow> v)"

text \<open>The \<^verbatim>\<open>get\<close> and \<^verbatim>\<open>set\<close> traps of the proxy.\<close>

definition shadow_get :: "shadow \<Rightarrow> string \<Rightarrow> error + rvalue" where
  "shadow_get sh p =
     (if p \<in> set (excluded sh) then Inl (PropertyNotLoaded p)
      else Inr (object_get (target sh) p))"

definition shadow_set :: "shadow \<Rightarrow> string \<Rightarrow> rvalue \<Rightarrow> shadow" where
  "shadow_set sh p v =
     Shadow (AList.update p v (target sh))
            (if p \<in> set (excluded sh) then removeAll p (excluded sh) else excluded sh)"

fun truthy_rvalue :: "rvalue \<Rightarrow> bool" where
  "truthy_rvalue (RVal v) = truthy v"
| "truthy_rvalue (RObj _) = True"
| "truthy_rvalue (RArr _) = True"

text \<open>
  A value used where the code expects an identifier (\<^verbatim>\<open>EntityIdentifierType\<close>); anything but
  a scalar is outside that type.
\<close>

fun as_identifier :: "rvalue \<Rightarrow> error + scalar" where
  "as_identifier (RVal (Scalar x)) = Inr x"
| "as_identifier _ = Inl TypeMismatch"

section \<open>Queryable and RelationAttachmentProvider\<close>

text \<open>The include map: relation name to the include map of the related object.\<close>

datatype include_map = IncludeMap (entries: "(string \<times> include_map) list")

fun imsize :: "include_map \<Rightarrow> nat" where
  "imsize (IncludeMap kvs) = Suc (sum_list (map (\<lambda>x. imsize (snd x)) kvs))"

lemma imsize_pos [simp]: "0 < imsize im"
  by (cases im) simp

text \<open>The loop of \<^verbatim>\<open>_getById\<close> over the scalar properties; falsy values are skipped.\<close>

fun loadProperties ::
  "registry \<Rightarrow> string \<Rightarrow> scalar \<Rightarrow> string list \<Rightarrow> (string \<times> rvalue) list \<Rightarrow> localStorage
     \<Rightarrow> error + (string \<times> rvalue) list" where
  "loadProperties reg t i [] data s = Inr data"
| "loadProperties reg t i (property # properties) data s =
     (case getDataKey reg t i property of
        Inl e \<Rightarrow> Inl e
      | Inr dataKey \<Rightarrow>
          (let propertyValue = driver_read dataKey s in
           if \<not> truthy propertyValue then loadProperties reg t i properties data s
           else loadProperties reg t i properties
                  (AList.update property (RVal propertyValue) data) s))"

function (sequential)
  getById_internal ::
    "registry \<Rightarrow> ClassSpecification \<Rightarrow> include_map \<Rightarrow> scalar \<Rightarrow> bool \<Rightarrow> localStorage
       \<Rightarrow> error + shadow"
and attachIncludesAndGet ::
    "registry \<Rightarrow> (string \<times> rvalue) list \<Rightarrow> ClassSpecification \<Rightarrow> include_map \<Rightarrow> localStorage
       \<Rightarrow> error + shadow"
and attachIncludes ::
    "registry \<Rightarrow> ClassSpecification \<Rightarrow> (string \<times> include_map) list \<Rightarrow> shadow \<Rightarrow> localStorage
       \<Rightarrow> error + shadow"
and getByIds ::
    "registry \<Rightarrow> ClassSpecification \<Rightarrow> include_map \<Rightarrow> scalar list \<Rightarrow> localStorage
       \<Rightarrow> error + shadow list"
and getEach ::
    "registry \<Rightarrow> ClassSpecification \<Rightarrow> include_map \<Rightarrow> scalar list \<Rightarrow> localStorage
       \<Rightarrow> error + shadow list"
where
  "getById_internal reg cs includeMap i skipIndexCheck s =
     (case (if \<not> skipIndexCheck
            then (case getTableIndex (tableName cs) s of
                    Inl e \<Rightarrow> Inl e
                  | Inr indexes \<Rightarrow>
                      if i \<notin> set indexes then Inl (NoDataFound i (tableName cs)) else Inr ())
            else Inr ()) of
        Inl e \<Rightarrow> Inl e
      | Inr _ \<Rightarrow>
          (case loadProperties reg (tableName cs) i (nonRelationalProperties cs) [] s of
             Inl e \<Rightarrow> Inl e
           | Inr data \<Rightarrow> attachIncludesAndGet reg data cs includeMap s))"
| "attachIncludesAndGet reg data cs (IncludeMap includeContext) s =
     attachIncludes reg cs includeContext
       (Shadow_for data (map name (relationalProperties cs))) s"
| "attachIncludes reg cs [] attachedData s = Inr attachedData"
| "attachIncludes reg cs ((includeKey, sub) # rest) attachedData s =
     (case find (\<lambda>x. name x = includeKey) (relationalProperties cs) of
        None \<Rightarrow> Inl (InvalidIncludeKey includeKey)
      | Some relationalProperty \<Rightarrow>
          (case getSpecificationFor reg (rel_class relationalProperty) of
             Inl e \<Rightarrow> Inl e
           | Inr relatedClassSpecification \<Rightarrow>
               if isCollection relationalProperty then
                 (case as_identifier (object_get (target attachedData) (identifierProperty cs)) of
                    Inl e \<Rightarrow> Inl e
                  | Inr relatedPropertyId \<Rightarrow>
                      (case getRelationIndex (tableName cs) (tableName relatedClassSpecification)
                              (correspondingIdentifierProperty relationalProperty)
                              relatedPropertyId s of
                         Inl e \<Rightarrow> Inl e
                       | Inr idsToFetch \<Rightarrow>
                           (case getByIds reg relatedClassSpecification sub
                                   (case idsToFetch of None \<Rightarrow> [] | Some ids \<Rightarrow> ids) s of
                              Inl e \<Rightarrow> Inl e
                            | Inr related \<Rightarrow>
                                attachIncludes reg cs rest
                                  (shadow_set attachedData includeKey (RArr related)) s)))
               else if correspondingIdentifierProperty relationalProperty
                         \<notin> set (map fst (target attachedData))
               then attachIncludes reg cs rest attachedData s
               else
                 (let relatedPropertyId =
                        object_get (target attachedData)
                          (correspondingIdentifierProperty relationalProperty) in
                  if \<not> truthy_rvalue relatedPropertyId
                  then attachIncludes reg cs rest
                         (shadow_set attachedData includeKey (RVal (Scalar Null))) s
                  else
                    (case as_identifier relatedPropertyId of
                       Inl e \<Rightarrow> Inl e
                     | Inr relatedId \<Rightarrow>
                         (case getById_internal reg relatedClassSpecification sub relatedId True s of
                            Inl e \<Rightarrow> Inl e
                          | Inr related \<Rightarrow>
                              attachIncludes reg cs rest
                                (shadow_set attachedData includeKey (RObj related)) s)))))"
| "getByIds reg cs includeMap ids s =
     (case getTableIndex (tableName cs) s of
        Inl e \<Rightarrow> Inl e
      | Inr indexes \<Rightarrow>
          if (\<exists>i \<in> set ids. i \<notin> set indexes) then Inl (MissingIds (tableName cs))
          else getEach reg cs includeMap ids s)"
| "getEach reg cs includeMap [] s = Inr []"
| "getEach reg cs includeMap (i # ids) s =
     (case getById_internal reg cs includeMap i True s of
        Inl e \<Rightarrow> Inl e
      | Inr data \<Rightarrow>
          (case getEach reg cs includeMap ids s of
             Inl e \<Rightarrow> Inl e
           | Inr result \<Rightarrow> Inr (data # result)))"
  by pat_completeness auto
termination
  apply (relation "inv_image (less_than <*lex*> less_than <*lex*> less_than)
     (\<lambda>x. case x of
         Inl (Inl (reg, cs, im, i, skip, s)) \<Rightarrow> (imsize im, 2::nat, 0::nat)
       | Inl (Inr (reg, data, cs, im, s)) \<Rightarrow> (imsize im, 1, 0)
       | Inr (Inl (reg, cs, kvs, sh, s)) \<Rightarrow> (sum_list (map (\<lambda>x. imsize (snd x)) kvs), 5, length kvs)
       | Inr (Inr (Inl (reg, cs, im, ids, s))) \<Rightarrow> (imsize im, 4, 0)
       | Inr (Inr (Inr (reg, cs, im, ids, s))) \<Rightarrow> (imsize im, 3, length ids))")
  apply (auto simp: Let_def)
   apply fastforce+
  done


definition getById ::
  "registry \<Rightarrow> ClassSpecification \<Rightarrow> include_map \<Rightarrow> scalar \<Rightarrow> localStorage \<Rightarrow> error + shadow" where
  "getById reg cs includeMap i s = getById_internal reg cs includeMap i False s"

definition getAll ::
  "registry \<Rightarrow> ClassSpecification \<Rightarrow> include_map \<Rightarrow> localStorage \<Rightarrow> error + shadow list" where
  "getAll reg cs includeMap s =
     (case getTableIndex (tableName cs) s of
        Inl e \<Rightarrow> Inl e
      | Inr indexes \<Rightarrow> getEach reg cs includeMap indexes s)"

section \<open>ConditionalQueryable\<close>

type_synonym condition = "string \<times> (jsval \<Rightarrow> bool)"

definition cq_where ::
  "ClassSpecification \<Rightarrow> condition list \<Rightarrow> string \<Rightarrow> (jsval \<Rightarrow> bool) \<Rightarrow> error + condition list" where
  "cq_where cs conditions key predicate =
     (if (\<exists>x \<in> set (relationalProperties cs). name x = key)
      then Inl (WhereOnRelationalProperty key)
      else Inr (conditions @ [(key, predicate)]))"

text \<open>\<^verbatim>\<open>Queryable.where\<close> starts a conditional query with no condition and adds one.\<close>

definition queryable_where ::
  "ClassSpecification \<Rightarrow> string \<Rightarrow> (jsval \<Rightarrow> bool) \<Rightarrow> error + condition list" where
  "queryable_where cs key predicate = cq_where cs [] key predicate"

fun checkConditionByIndex ::
  "registry \<Rightarrow> ClassSpecification \<Rightarrow> condition list \<Rightarrow> scalar \<Rightarrow> localStorage \<Rightarrow> error + bool" where
  "checkConditionByIndex reg cs [] index s = Inr True"
| "checkConditionByIndex reg cs (condition # rest) index s =
     (case getDataKey reg (tableName cs) index (fst condition) of
        Inl e \<Rightarrow> Inl e
      | Inr dataKeyForProperty \<Rightarrow>
          if \<not> (snd condition) (driver_read dataKeyForProperty s) then Inr False
          else checkConditionByIndex reg cs rest index s)"

text \<open>
  Calling an \<^verbatim>\<open>async\<close> function returns a promise object at once, whatever its body
  computes or throws.  \<^verbatim>\<open>Array.prototype.filter\<close> keeps an element when the value the
  callback returns is truthy, and a promise is an object: it is truthy.
\<close>

datatype 'a promise = Promise "error + 'a"

definition truthy_promise :: "'a promise \<Rightarrow> bool" where
  "truthy_promise p = True"

definition passingIndexes_filter ::
  "registry \<Rightarrow> ClassSpecification \<Rightarrow> condition list \<Rightarrow> scalar list \<Rightarrow> localStorage \<Rightarrow> scalar list" where
  "passingIndexes_filter reg cs conditions indexes s =
     filter (\<lambda>index. truthy_promise (Promise (checkConditionByIndex reg cs conditions index s)))
       indexes"

definition cq_getAll ::
  "registry \<Rightarrow> ClassSpecification \<Rightarrow> include_map \<Rightarrow> condition list \<Rightarrow> localStorage
     \<Rightarrow> error + shadow list" where
  "cq_getAll reg cs includeMap conditions s =
     (case getTableIndex (tableName cs) s of
        Inl e \<Rightarrow> Inl e
      | Inr indexes \<Rightarrow>
          (let passingIndexes = passingIndexes_filter reg cs conditions indexes s
           in getEach reg cs includeMap passingIndexes s))"

definition cq_single ::
  "registry \<Rightarrow> ClassSpecification \<Rightarrow> include_map \<Rightarrow> condition list \<Rightarrow> localStorage
     \<Rightarrow> error + shadow" where
  "cq_single reg cs includeMap conditions s =
     (case getTableIndex (tableName cs) s of
        Inl e \<Rightarrow> Inl e
      | Inr indexes \<Rightarrow>
          (let passingIndexes = passingIndexes_filter reg cs conditions indexes s in
           if length passingIndexes > 1 then Inl MoreThanOneRecord
           else if length passingIndexes = 0 then Inl NoRecordFound
           else getById_internal reg cs includeMap (hd passingIndexes) True s))"

definition cq_count ::
  "registry \<Rightarrow> ClassSpecification \<Rightarrow> condition list \<Rightarrow> localStorage \<Rightarrow> error + nat" where
  "cq_count reg cs conditions s =
     (case getTableIndex (tableName cs) s of
        Inl e \<Rightarrow> Inl e
      | Inr indexes \<Rightarrow> Inr (length (passingIndexes_filter reg cs conditions indexes s)))"

text \<open>\<^verbatim>\<open>first\<close> and \<^verbatim>\<open>any\<close> await the check of each index in a loop.\<close>

fun firstPassing ::
  "registry \<Rightarrow> ClassSpecification \<Rightarrow> condition list \<Rightarrow> scalar list \<Rightarrow> localStorage
     \<Rightarrow> error + scalar option" where
  "firstPassing reg cs conditions [] s = Inr None"
| "firstPassing reg cs conditions (index # indexes) s =
     (case checkConditionByIndex reg cs conditions index s of
        Inl e \<Rightarrow> Inl e
      | Inr passesConditions \<Rightarrow>
          if passesConditions then Inr (Some index)
          else firstPassing reg cs conditions indexes s)"

definition cq_first ::
  "registry \<Rightarrow> ClassSpecification \<Rightarrow> include_map \<Rightarrow> condition list \<Rightarrow> localStorage
     \<Rightarrow> error + shadow option" where
  "cq_first reg cs includeMap conditions s =
     (case getTableIndex (tableName cs) s of
        Inl e \<Rightarrow> Inl e
      | Inr indexes \<Rightarrow>
          (case firstPassing reg cs conditions indexes s of
             Inl e \<Rightarrow> Inl e
           | Inr None \<Rightarrow> Inr None
           | Inr (Some index) \<Rightarrow>
               (case getById_internal reg cs includeMap index True s of
                  Inl e \<Rightarrow> Inl e
                | Inr data \<Rightarrow> Inr (Some data))))"

definition cq_any ::
  "registry \<Rightarrow> ClassSpecification \<Rightarrow> condition list \<Rightarrow> localStorage \<Rightarrow> error + bool" where
  "cq_any reg cs conditions s =
     (case getTableIndex (tableName cs) s of
        Inl e \<Rightarrow> Inl e
      | Inr indexes \<Rightarrow>
          (case firstPassing reg cs conditions indexes s of
             Inl e \<Rightarrow> Inl e
           | Inr found \<Rightarrow> Inr (found \<noteq> None)))"

text \<open>\<^verbatim>\<open>select\<close>: the selected keys are assigned whatever was read, also \<^verbatim>\<open>null\<close>.\<close>

fun selectProperties ::
  "registry \<Rightarrow> string \<Rightarrow> scalar \<Rightarrow> string list \<Rightarrow> (string \<times> rvalue) list \<Rightarrow> localStorage
     \<Rightarrow> error + (string \<times> rvalue) list" where
  "selectProperties reg t index [] data s = Inr data"
| "selectProperties reg t index (key # keys) data s =
     (case getDataKey reg t index key of
        Inl e \<Rightarrow> Inl e
      | Inr dataKeyForProperty \<Rightarrow>
          selectProperties reg t index keys
            (AList.update key (RVal (driver_read dataKeyForProperty s)) data) s)"

fun selectRows ::
  "registry \<Rightarrow> ClassSpecification \<Rightarrow> condition list \<Rightarrow> string list \<Rightarrow> scalar list \<Rightarrow> localStorage
     \<Rightarrow> error + (string \<times> rvalue) list list" where
  "selectRows reg cs conditions keys [] s = Inr []"
| "selectRows reg cs conditions keys (index # indexes) s =
     (case checkConditionByIndex reg cs conditions index s of
        Inl e \<Rightarrow> Inl e
      | Inr passesConditions \<Rightarrow>
          if \<not> passesConditions then selectRows reg cs conditions keys indexes s
          else
            (case selectProperties reg (tableName cs) index keys [] s of
               Inl e \<Rightarrow> Inl e
             | Inr data \<Rightarrow>
                 (case selectRows reg cs conditions keys indexes s of
                    Inl e \<Rightarrow> Inl e
                  | Inr result \<Rightarrow> Inr (data # result))))"

fun attachEach ::
  "registry \<Rightarrow> ClassSpecification \<Rightarrow> include_map \<Rightarrow> (string \<times> rvalue) list list \<Rightarrow> localStorage
     \<Rightarrow> error + shadow list" where
  "attachEach reg cs includeMap [] s = Inr []"
| "attachEach reg cs includeMap (data # result) s =
     (case attachIncludesAndGet reg data cs includeMap s of
        Inl e \<Rightarrow> Inl e
      | Inr attachedData \<Rightarrow>
          (case attachEach reg cs includeMap result s of
             Inl e \<Rightarrow> Inl e
           | Inr attachedObjects \<Rightarrow> Inr (attachedData # attachedObjects)))"

definition cq_select ::
  "registry \<Rightarrow> ClassSpecification \<Rightarrow> include_map \<Rightarrow> condition list \<Rightarrow> string list \<Rightarrow> localStorage
     \<Rightarrow> error + shadow list" where
  "cq_select reg cs includeMap conditions keys s =
     (case getTableIndex (tableName cs) s of
        Inl e \<Rightarrow> Inl e
      | Inr indexes \<Rightarrow>
          (case selectRows reg cs conditions keys indexes s of
             Inl e \<Rightarrow> Inl e
           | Inr result \<Rightarrow> attachEach reg cs includeMap result s))"

text \<open>What an attached relation holds.\<close>

definition attached_shape :: "RelationalProperty \<Rightarrow> rvalue \<Rightarrow> bool" where
  "attached_shape rp v =
     (if isCollection rp then (\<exists>rows. v = RArr rows)
      else v = RVal (Scalar Null) \<or> (\<exists>r. v = RObj r))"

section \<open>The footprint of delete\<close>

text \<open>
  The keys \<^verbatim>\<open>delete\<close> computes: they depend on the registry, the specification and the
  instance passed to \<^verbatim>\<open>delete\<close>, not on the store.
\<close>

fun relation_keys ::
  "registry \<Rightarrow> ClassSpecification \<Rightarrow> RelationalProperty list \<Rightarrow> entity \<Rightarrow> scalar \<Rightarrow> string list" where
  "relation_keys reg cs [] inst i = []"
| "relation_keys reg cs (rp # rest) inst i =
     (case getSpecificationFor reg (rel_class rp) of
        Inl e \<Rightarrow> []
      | Inr rcs \<Rightarrow>
          (if isCollection rp
           then getRelationIndexKey (tableName cs) (tableName rcs)
                  (correspondingIdentifierProperty rp) i
           else getRelationIndexKey (tableName rcs) (tableName cs)
                  (correspondingIdentifierProperty rp)
                  (get_prop inst (correspondingIdentifierProperty rp)))
          # relation_keys reg cs rest inst i)"

definition data_keys :: "string \<Rightarrow> scalar \<Rightarrow> string list \<Rightarrow> string list" where
  "data_keys t i ps = map (\<lambda>p. t @ '':'' @ to_string i @ '':'' @ p @ '';'') ps"

definition delete_keys :: "registry \<Rightarrow> ClassSpecification \<Rightarrow> entity \<Rightarrow> string list" where
  "delete_keys reg cs inst =
     getTableIndexKey (tableName cs)
     # data_keys (tableName cs) (get_prop inst (identifierProperty cs)) (nonRelationalProperties cs)
     @ relation_keys reg cs (relationalProperties cs) inst (get_prop inst (identifierProperty cs))"

text \<open>A data cell is a cell whose key ends in a semicolon, as every scalar data key does.\<close>

definition data_cell :: "string \<Rightarrow> bool" where
  "data_cell k = (k \<noteq> [] \<and> last k = CHR '';'')"

definition same_index_cells :: "localStorage \<Rightarrow> localStorage \<Rightarrow> bool" where
  "same_index_cells s1 s2 = (\<forall>k. \<not> data_cell k \<longrightarrow> s1 k = s2 k)"

text \<open>The bucket (or table index) read at a key does not list the identifier.\<close>

definition bucket_lacks :: "string \<Rightarrow> scalar \<Rightarrow> localStorage \<Rightarrow> bool" where
  "bucket_lacks key i s = (case driver_read key s of Array xs \<Rightarrow> i \<notin> set xs | Scalar x \<Rightarrow> True)"

text \<open>The state of the relation buckets after the loop of \<^verbatim>\<open>delete\<close> over the relations.\<close>

definition relation_cleaned ::
  "ClassSpecification \<Rightarrow> entity \<Rightarrow> scalar \<Rightarrow> RelationalProperty \<Rightarrow> ClassSpecification
     \<Rightarrow> localStorage \<Rightarrow> bool" where
  "relation_cleaned cs inst i rp rcs s =
     (if isCollection rp
      then getRelationIndex (tableName cs) (tableName rcs)
             (correspondingIdentifierProperty rp) i s = Inr None
      else bucket_lacks
             (getRelationIndexKey (tableName rcs) (tableName cs)
                (correspondingIdentifierProperty rp)
                (get_prop inst (correspondingIdentifierProperty rp))) i s)"

section \<open>Sequences of operations and invariants of the store\<close>

text \<open>
  Sequences of repository calls.  A caller obtains the repository of a class and calls it;
  a call that throws leaves in the store what it wrote before it threw.
\<close>

datatype operation = Create string entity | Update string entity | Delete string entity

fun apply_operation :: "registry \<Rightarrow> operation \<Rightarrow> localStorage \<Rightarrow> localStorage" where
  "apply_operation reg (Create c e) s =
     (case getSpecificationFor reg c of Inl err \<Rightarrow> s | Inr cs \<Rightarrow> snd (create reg cs e s))"
| "apply_operation reg (Update c e) s =
     (case getSpecificationFor reg c of Inl err \<Rightarrow> s | Inr cs \<Rightarrow> snd (update reg cs e s))"
| "apply_operation reg (Delete c e) s =
     (case getSpecificationFor reg c of Inl err \<Rightarrow> s | Inr cs \<Rightarrow> snd (delete reg cs e s))"

fun run :: "registry \<Rightarrow> operation list \<Rightarrow> localStorage \<Rightarrow> localStorage" where
  "run reg [] s = s"
| "run reg (op # ops) s = run reg ops (apply_operation reg op s)"

text \<open>No array of the store lists a string or a number twice.\<close>

definition index_cells_unique :: "localStorage \<Rightarrow> bool" where
  "index_cells_unique s =
     (\<forall>k xs. s k = Some (Text_json (Array xs)) \<longrightarrow> distinct (filter is_identifier xs))"

text \<open>No cell but a data cell holds a truthy scalar: index cells hold arrays.\<close>

definition index_cells_typed :: "localStorage \<Rightarrow> bool" where
  "index_cells_typed s =
     (\<forall>k x. \<not> data_cell k \<longrightarrow> s k = Some (Text_json (Scalar x)) \<longrightarrow> \<not> truthy_scalar x)"

text \<open>
  A registry as \<^verbatim>\<open>register\<close> and the README build it: every specification is found under
  its class name and under its table name, and the class of every relation is registered.
\<close>

definition wf_registry :: "registry \<Rightarrow> bool" where
  "wf_registry reg =
     list_all (\<lambda>entry.
        getSpecificationFor reg (fst entry) = Inr (snd entry)
        \<and> getSpecificationByTableName reg (tableName (snd entry)) = Inr (snd entry)
        \<and> list_all (\<lambda>rp. case getSpecificationFor reg (rel_class rp) of
                             Inl e \<Rightarrow> False | Inr rcs \<Rightarrow> True)
             (relationalProperties (snd entry))) reg"

fun is_violation :: "error \<Rightarrow> bool" where
  "is_violation (IndexConstraintViolation i t) = True"
| "is_violation _ = False"

text \<open>The bucket (or table index) read at a key lists the identifier.\<close>

definition bucket_lists :: "string \<Rightarrow> scalar \<Rightarrow> localStorage \<Rightarrow> bool" where
  "bucket_lists key i s = (case driver_read key s of Array xs \<Rightarrow> i \<in> set xs | Scalar x \<Rightarrow> False)"

text \<open>The instance carries no related object that the cascade would upsert.\<close>

definition no_related :: "ClassSpecification \<Rightarrow> entity \<Rightarrow> bool" where
  "no_related cs inst =
     list_all (\<lambda>rp. if isCollection rp
                   then (case map_of (manys inst) (name rp) of None \<Rightarrow> True | Some xs \<Rightarrow> xs = [])
                   else map_of (ones inst) (name rp) = None)
       (relationalProperties cs)"

text \<open>A specification of a well-formed registry.\<close>

definition registered :: "registry \<Rightarrow> ClassSpecification \<Rightarrow> bool" where
  "registered reg cs = (wf_registry reg \<and> cs \<in> snd ` set reg)"

section \<open>The specifications of the README\<close>

definition PersonSpecification :: ClassSpecification where
  "PersonSpecification =
     \<lparr>spec_class = ''Person'', tableName = ''person'', identifierProperty = ''id'',
      nonRelationalProperties = [''id'', ''age'', ''name''],
      relationalProperties =
        [\<lparr>name = ''address'', rel_class = ''Address'',
          correspondingIdentifierProperty = ''personId'', isCollection = True\<rparr>]\<rparr>"

definition AddressSpecification :: ClassSpecification where
  "AddressSpecification =
     \<lparr>spec_class = ''Address'', tableName = ''address'', identifierProperty = ''id'',
      nonRelationalProperties = [''id'', ''city'', ''street'', ''personId''],
      relationalProperties =
        [\<lparr>name = ''person'', rel_class = ''Person'',
          correspondingIdentifierProperty = ''personId'', isCollection = False\<rparr>]\<rparr>"

definition exampleRegistry :: registry where
  "exampleRegistry = [(''Address'', AddressSpecification), (''Person'', PersonSpecification)]"

subsection \<open>Example data\<close>


definition john :: entity where
  "john = Entity [(''id'', Str ''1''), (''name'', Str ''John''), (''age'', Num 30)] [] []"

definition jane :: entity where
  "jane = Entity [(''id'', Str ''2''), (''name'', Str ''Jane''), (''age'', Num 25)] [] []"

definition newborn :: entity where
  "newborn = Entity [(''id'', Str ''3''), (''name'', Str ''''), (''age'', Num 0)] [] []"

definition store_john :: localStorage where
  "store_john = snd (create exampleRegistry PersonSpecification john Map.empty)"

definition store_john_jane :: localStorage where
  "store_john_jane = snd (create exampleRegistry PersonSpecification jane store_john)"

definition is_Jane :: "jsval \<Rightarrow> bool" where
  "is_Jane v = (v = Scalar (Str ''Jane''))"

definition house :: entity where
  "house = Entity [(''id'', Str ''7''), (''city'', Str ''Damak''), (''personId'', Str ''1'')] [] []"

definition house_unowned :: entity where
  "house_unowned = Entity [(''id'', Str ''7''), (''city'', Str ''Damak'')] [] []"

definition store_unowned :: localStorage where
  "store_unowned = snd (create exampleRegistry AddressSpecification house_unowned store_john)"

definition store_house :: localStorage where
  "store_house = snd (create exampleRegistry AddressSpecification house store_john)"

definition store_stale :: localStorage where
  "store_stale = snd (delete exampleRegistry AddressSpecification house_unowned store_house)"

definition house_moved :: entity where
  "house_moved = Entity [(''id'', Str ''7''), (''city'', Str ''Damak''), (''personId'', Str ''2'')] [] []"

definition store_moved :: localStorage where
  "store_moved = snd (update exampleRegistry AddressSpecification house_moved store_house)"

definition store_moved_deleted :: localStorage where
  "store_moved_deleted = snd (delete exampleRegistry AddressSpecification house_moved store_moved)"

definition store_house_deleted :: localStorage where
  "store_house_deleted = snd (delete exampleRegistry AddressSpecification house store_house)"

definition store_house_deleted_moved :: localStorage where
  "store_house_deleted_moved = snd (delete exampleRegistry AddressSpecification house_moved store_house)"

definition john_renamed :: entity where
  "john_renamed = Entity [(''id'', Str ''1''), (''name'', Str ''Johnny'')] [] []"

definition house_with_family :: entity where
  "house_with_family =
     Entity [(''id'', Str ''7''), (''city'', Str ''Damak''), (''personId'', Str ''1'')]
       [(''person'',
         Entity [(''id'', Str ''1''), (''name'', Str ''John''), (''age'', Num 30)] []
           [(''address'', [Entity [(''id'', Str ''8''), (''city'', Str ''Itahari'')] [] []])])]
       []"

definition store_updated_jane :: localStorage where
  "store_updated_jane = snd (update exampleRegistry PersonSpecification jane store_john)"

definition store_family :: localStorage where
  "store_family = snd (update exampleRegistry AddressSpecification house_with_family store_house)"

declare getById_internal.simps [simp del] attachIncludesAndGet.simps [simp del]
  getByIds.simps [simp del]


section \<open>The registry of the README\<close>

text \<open>The two \<^verbatim>\<open>register\<close> calls of the README produce the example registry.\<close>

lemma exampleRegistry_registered:
  "(case register AddressSpecification [] of
      Inl e \<Rightarrow> Inl e
    | Inr reg \<Rightarrow> register PersonSpecification reg) = Inr exampleRegistry"
  by code_simp

lemma register_twice:
  "register PersonSpecification exampleRegistry = Inl (SpecificationAlreadyRegistered ''Person'')"
  by code_simp

section \<open>Filtering with an asynchronous callback\<close>

lemma passingIndexes_filter_all:
  "passingIndexes_filter reg cs conditions indexes s = indexes"
  by (simp add: passingIndexes_filter_def truthy_promise_def)

lemma cq_getAll_is_getAll: "cq_getAll reg cs includeMap conditions s = getAll reg cs includeMap s"
  by (simp add: cq_getAll_def getAll_def passingIndexes_filter_all Let_def split: sum.splits)

subsection \<open>The guard set and the target during include resolution\<close>

lemma shadow_set_sel [simp]:
  "target (shadow_set a k v) = AList.update k v (target a)"
  "set (excluded (shadow_set a k v)) = set (excluded a) - {k}"
  by (auto simp: shadow_set_def)

lemma map_of_update_other: "p \<noteq> k \<Longrightarrow> map_of (AList.update k v al) p = map_of al p"
  by (simp add: update_conv')

lemma map_of_update_same: "map_of (AList.update k v al) k = Some v"
  by (simp add: update_conv')

lemma keys_update [simp]: "fst ` set (AList.update k v al) = insert k (fst ` set al)"
  by (induction al) auto

text \<open>One round of the loop over the include keys, when the whole loop succeeds.\<close>

lemma attachIncludes_step:
  assumes "attachIncludes reg cs ((k, sub) # rest) a s = Inr sh"
  obtains rp v where
    "find (\<lambda>x. name x = k) (relationalProperties cs) = Some rp"
    "isCollection rp" "\<exists>rows. v = RArr rows"
    "attachIncludes reg cs rest (shadow_set a k v) s = Inr sh"
  | rp where
    "find (\<lambda>x. name x = k) (relationalProperties cs) = Some rp"
    "\<not> isCollection rp"
    "correspondingIdentifierProperty rp \<notin> fst ` set (target a)"
    "attachIncludes reg cs rest a s = Inr sh"
  | rp v where
    "find (\<lambda>x. name x = k) (relationalProperties cs) = Some rp"
    "\<not> isCollection rp"
    "correspondingIdentifierProperty rp \<in> fst ` set (target a)"
    "v = RVal (Scalar Null) \<or> (\<exists>r. v = RObj r)"
    "attachIncludes reg cs rest (shadow_set a k v) s = Inr sh"
proof -
  from assms obtain rp where f: "find (\<lambda>x. name x = k) (relationalProperties cs) = Some rp"
    by (simp split: option.splits)
  from assms f obtain rcs where g: "getSpecificationFor reg (rel_class rp) = Inr rcs"
    by (simp split: sum.splits)
  show thesis
  proof (cases "isCollection rp")
    case True
    with assms f g obtain rows where
      "attachIncludes reg cs rest (shadow_set a k (RArr rows)) s = Inr sh"
      by (simp split: sum.splits)
    with f True show thesis by (intro that(1)) auto
  next
    case c: False
    show thesis
    proof (cases "correspondingIdentifierProperty rp \<in> fst ` set (target a)")
      case False
      with assms f g c have "attachIncludes reg cs rest a s = Inr sh"
        by simp
      with f c False show thesis by (intro that(2))
    next
      case True
      show thesis
      proof (cases "truthy_rvalue (object_get (target a) (correspondingIdentifierProperty rp))")
        case False
        with assms f g c True
        have "attachIncludes reg cs rest (shadow_set a k (RVal (Scalar Null))) s = Inr sh"
          by (simp add: Let_def)
        with f c True show thesis by (intro that(3)) auto
      next
        case t: True
        with assms f g c True obtain r where
          "attachIncludes reg cs rest (shadow_set a k (RObj r)) s = Inr sh"
          by (simp add: Let_def split: sum.splits)
        with f c True show thesis by (intro that(3)) auto
      qed
    qed
  qed
qed

lemma attachIncludes_excluded_subset:
  "attachIncludes reg cs kvs a s = Inr sh \<Longrightarrow> set (excluded sh) \<subseteq> set (excluded a)"
proof (induction kvs arbitrary: a)
  case Nil
  then show ?case by simp
next
  case (Cons kv kvs)
  obtain k sub where kv: "kv = (k, sub)" by (cases kv)
  from Cons.prems [unfolded kv] show ?case
    by (rule attachIncludes_step) (auto dest!: Cons.IH)
qed

lemma attachIncludes_excluded_keeps:
  "attachIncludes reg cs kvs a s = Inr sh \<Longrightarrow> p \<in> set (excluded a) \<Longrightarrow> p \<notin> fst ` set kvs
     \<Longrightarrow> p \<in> set (excluded sh)"
proof (induction kvs arbitrary: a)
  case Nil
  then show ?case by simp
next
  case (Cons kv kvs)
  obtain k sub where kv: "kv = (k, sub)" by (cases kv)
  from Cons.prems(2,3) have pk: "p \<noteq> k" and pr: "p \<notin> fst ` set kvs"
    by (auto simp: kv)
  from Cons.prems(1) [unfolded kv] show ?case
    by (rule attachIncludes_step) (use pk pr Cons.prems(2) in \<open>auto intro!: Cons.IH\<close>)
qed

lemma attachIncludes_keys_grow:
  "attachIncludes reg cs kvs a s = Inr sh \<Longrightarrow> fst ` set (target a) \<subseteq> fst ` set (target sh)"
proof (induction kvs arbitrary: a)
  case Nil
  then show ?case by simp
next
  case (Cons kv kvs)
  obtain k sub where kv: "kv = (k, sub)" by (cases kv)
  from Cons.prems [unfolded kv] show ?case
  proof (rule attachIncludes_step)
    fix rp v
    assume "isCollection rp" "attachIncludes reg cs kvs (shadow_set a k v) s = Inr sh"
    from Cons.IH [OF this(2)] show ?thesis by simp
  next
    fix rp
    assume "attachIncludes reg cs kvs a s = Inr sh"
    from Cons.IH [OF this] show ?thesis .
  next
    fix rp v
    assume "\<not> isCollection rp" "attachIncludes reg cs kvs (shadow_set a k v) s = Inr sh"
    from Cons.IH [OF this(2)] show ?thesis by simp
  qed
qed

lemma attachIncludes_target_other:
  "attachIncludes reg cs kvs a s = Inr sh \<Longrightarrow> p \<notin> fst ` set kvs
     \<Longrightarrow> map_of (target sh) p = map_of (target a) p"
proof (induction kvs arbitrary: a)
  case Nil
  then show ?case by simp
next
  case (Cons kv kvs)
  obtain k sub where kv: "kv = (k, sub)" by (cases kv)
  from Cons.prems(2) have pk: "p \<noteq> k" and pr: "p \<notin> fst ` set kvs"
    by (auto simp: kv)
  from Cons.prems(1) [unfolded kv] show ?case
    by (rule attachIncludes_step)
       (use pk in \<open>auto simp: map_of_update_other dest!: Cons.IH [OF _ pr]\<close>)
qed

lemma attachIncludes_attached:
  "attachIncludes reg cs kvs a s = Inr sh \<Longrightarrow> k \<in> fst ` set kvs
     \<Longrightarrow> \<exists>rp. find (\<lambda>x. name x = k) (relationalProperties cs) = Some rp
          \<and> (isCollection rp \<or> correspondingIdentifierProperty rp \<in> fst ` set (target a)
               \<longrightarrow> k \<notin> set (excluded sh)
                   \<and> (\<exists>v. map_of (target sh) k = Some v \<and> attached_shape rp v))"
proof (induction kvs arbitrary: a)
  case Nil
  then show ?case by simp
next
  case (Cons kv kvs)
  obtain k0 sub where kv: "kv = (k0, sub)" by (cases kv)
  show ?case
  proof (cases "k \<in> fst ` set kvs")
    case True
    from Cons.prems(1) [unfolded kv] show ?thesis
    proof (rule attachIncludes_step)
      fix rp v
      assume r: "attachIncludes reg cs kvs (shadow_set a k0 v) s = Inr sh"
      from Cons.IH [OF r True] show ?thesis
        by (auto simp: keys_update)
    next
      fix rp
      assume r: "attachIncludes reg cs kvs a s = Inr sh"
      from Cons.IH [OF r True] show ?thesis by auto
    next
      fix rp v
      assume r: "attachIncludes reg cs kvs (shadow_set a k0 v) s = Inr sh"
      from Cons.IH [OF r True] show ?thesis
        by (auto simp: keys_update)
    qed
  next
    case False
    with Cons.prems(2) have k0: "k0 = k" by (auto simp: kv)
    from Cons.prems(1) [unfolded kv k0] show ?thesis
    proof (rule attachIncludes_step)
      fix rp v
      assume f: "find (\<lambda>x. name x = k) (relationalProperties cs) = Some rp"
        and c: "isCollection rp" and v: "\<exists>rows. v = RArr rows"
        and r: "attachIncludes reg cs kvs (shadow_set a k v) s = Inr sh"
      from attachIncludes_excluded_subset [OF r] have "k \<notin> set (excluded sh)" by auto
      moreover from attachIncludes_target_other [OF r False]
      have "map_of (target sh) k = Some v" by (simp add: map_of_update_same)
      ultimately show ?thesis using f c v by (auto simp: attached_shape_def)
    next
      fix rp
      assume "find (\<lambda>x. name x = k) (relationalProperties cs) = Some rp"
        "\<not> isCollection rp"
        "correspondingIdentifierProperty rp \<notin> fst ` set (target a)"
      then show ?thesis by auto
    next
      fix rp v
      assume f: "find (\<lambda>x. name x = k) (relationalProperties cs) = Some rp"
        and c: "\<not> isCollection rp" and v: "v = RVal (Scalar Null) \<or> (\<exists>r. v = RObj r)"
        and r: "attachIncludes reg cs kvs (shadow_set a k v) s = Inr sh"
      from attachIncludes_excluded_subset [OF r] have "k \<notin> set (excluded sh)" by auto
      moreover from attachIncludes_target_other [OF r False]
      have "map_of (target sh) k = Some v" by (simp add: map_of_update_same)
      ultimately show ?thesis using f c v by (auto simp: attached_shape_def)
    qed
  qed
qed


subsection \<open>Loading several records\<close>

lemma getEach_Inr_iff:
  "getEach reg cs im ids s = Inr rows
     \<longleftrightarrow> list_all2 (\<lambda>i r. getById_internal reg cs im i True s = Inr r) ids rows"
proof (induction ids arbitrary: rows)
  case Nil
  then show ?case by auto
next
  case (Cons i ids)
  show ?case
  proof (cases "getById_internal reg cs im i True s")
    case (Inl e)
    then show ?thesis by (auto simp: list_all2_Cons1)
  next
    case (Inr r)
    then show ?thesis
      by (cases "getEach reg cs im ids s") (auto simp: list_all2_Cons1 Cons.IH [symmetric])
  qed
qed

lemma getEach_Inl:
  "getEach reg cs im ids s = Inl e \<Longrightarrow> \<exists>i \<in> set ids. getById_internal reg cs im i True s = Inl e"
  by (induction ids) (auto split: sum.splits)

lemma getDataKey_registered:
  "getSpecificationByTableName reg t = Inr cs \<Longrightarrow> p \<in> set (nonRelationalProperties cs)
     \<Longrightarrow> getDataKey reg t i p = Inr (t @ '':'' @ to_string i @ '':'' @ p @ '';'')"
  by (simp add: getDataKey_def)

lemma loadProperties_registered:
  "getSpecificationByTableName reg t = Inr cs \<Longrightarrow> set ps \<subseteq> set (nonRelationalProperties cs)
     \<Longrightarrow> \<exists>d. loadProperties reg t i ps data s = Inr d"
  by (induction ps arbitrary: data) (auto simp: getDataKey_registered Let_def)

lemma getById_internal_no_includes:
  "getSpecificationByTableName reg (tableName cs) = Inr cs
     \<Longrightarrow> \<exists>r. getById_internal reg cs (IncludeMap []) i True s = Inr r"
  using loadProperties_registered [of reg "tableName cs" cs "nonRelationalProperties cs" i "[]" s]
  by (auto simp: getById_internal.simps attachIncludesAndGet.simps)


subsection \<open>Storage keys\<close>

lemma getTableIndexKey_eq: "getTableIndexKey t = ''::index-of::'' @ t @ ''-identifiers::''"
  by (simp add: getTableIndexKey_def)

lemma getRelationIndexKey_eq:
  "getRelationIndexKey d src f v =
     ''::index-of::'' @ src @ ''-identifiers::which-has-one::'' @ d @ ''::as::'' @ f @
     ''::with-identifier::'' @ to_string v @ ''::''"
  by (simp add: getRelationIndexKey_def)

lemma getDataKey_Inr:
  "getDataKey reg t i p = Inr k \<Longrightarrow> k = t @ '':'' @ to_string i @ '':'' @ p @ '';''"
  by (auto simp: getDataKey_def split: sum.splits if_splits)

lemma last_getTableIndexKey [simp]: "last (getTableIndexKey t) = CHR '':''"
  by (simp add: getTableIndexKey_eq)

lemma last_getRelationIndexKey [simp]: "last (getRelationIndexKey d src f v) = CHR '':''"
  by (simp add: getRelationIndexKey_eq)

lemma last_getDataKey: "getDataKey reg t i p = Inr k \<Longrightarrow> last k = CHR '';''"
  by (auto dest!: getDataKey_Inr)

lemma relation_key_not_table_key_src [simp]:
  "getRelationIndexKey d t f v \<noteq> getTableIndexKey t"
proof
  assume "getRelationIndexKey d t f v = getTableIndexKey t"
  then have "length (getRelationIndexKey d t f v) = length (getTableIndexKey t)" by simp
  then show False by (simp add: getRelationIndexKey_eq getTableIndexKey_eq)
qed

lemma relation_key_not_table_key_dest [simp]:
  "getRelationIndexKey t src f v \<noteq> getTableIndexKey t"
proof
  assume "getRelationIndexKey t src f v = getTableIndexKey t"
  then have "length (getRelationIndexKey t src f v) = length (getTableIndexKey t)" by simp
  then show False by (simp add: getRelationIndexKey_eq getTableIndexKey_eq)
qed

lemma data_key_not_index_key:
  assumes "getDataKey reg t i p = Inr k"
  shows "k \<noteq> getTableIndexKey t'" "k \<noteq> getRelationIndexKey d src f v"
  using last_getDataKey [OF assms] by auto

subsection \<open>Cells\<close>

text \<open>The cell of a key, and the cells whose keys are data keys.\<close>

lemma driver_write_cell:
  "driver_write key v s k =
     (if k = keyPrefix @ key then Some (if truthy v then JSON_stringify v else Text_empty)
      else s k)"
  by (simp add: driver_write_def)

lemma driver_remove_cell:
  "driver_remove key s k = (if k = keyPrefix @ key then None else s k)"
  by (simp add: driver_remove_def)

lemma driver_read_cong: "s1 (keyPrefix @ key) = s2 (keyPrefix @ key) \<Longrightarrow> driver_read key s1 = driver_read key s2"
  by (simp add: driver_read_def)



subsection \<open>The footprint of delete\<close>

lemma removeTableIndex_frame:
  "removeTableIndex t i s = (r, s') \<Longrightarrow> k \<noteq> keyPrefix @ getTableIndexKey t \<Longrightarrow> s' k = s k"
  by (auto simp: removeTableIndex_def Let_def driver_write_cell split: if_splits jsval.splits)

lemma removeRelationIndex_frame:
  "removeRelationIndex d src f v i s = (r, s') \<Longrightarrow> k \<noteq> keyPrefix @ getRelationIndexKey d src f v
     \<Longrightarrow> s' k = s k"
  by (auto simp: removeRelationIndex_def Let_def driver_write_cell split: if_splits jsval.splits)

lemma removeProperties_frame:
  "removeProperties reg t i ps s = (r, s') \<Longrightarrow> k \<notin> (\<lambda>x. keyPrefix @ x) ` set (data_keys t i ps)
     \<Longrightarrow> s' k = s k"
proof (induction ps arbitrary: s)
  case Nil
  then show ?case by simp
next
  case (Cons p ps)
  show ?case
  proof (cases "getDataKey reg t i p")
    case (Inl e)
    with Cons.prems show ?thesis by simp
  next
    case (Inr dk)
    from Cons.prems(2) have k1: "k \<noteq> keyPrefix @ dk" and
      k2: "k \<notin> (\<lambda>x. keyPrefix @ x) ` set (data_keys t i ps)"
      using getDataKey_Inr [OF Inr] by (auto simp: data_keys_def)
    from Cons.prems(1) Inr have "removeProperties reg t i ps (driver_remove dk s) = (r, s')"
      by simp
    from Cons.IH [OF this k2] k1 show ?thesis
      by (simp add: driver_remove_cell)
  qed
qed

lemma removeRelations_frame:
  "removeRelations reg cs rps inst i s = (r, s')
     \<Longrightarrow> k \<notin> (\<lambda>x. keyPrefix @ x) ` set (relation_keys reg cs rps inst i)
     \<Longrightarrow> s' k = s k"
proof (induction rps arbitrary: s)
  case Nil
  then show ?case by simp
next
  case (Cons rp rps)
  show ?case
  proof (cases "getSpecificationFor reg (rel_class rp)")
    case (Inl e)
    with Cons.prems show ?thesis by simp
  next
    case (Inr rcs)
    show ?thesis
    proof (cases "isCollection rp")
      case True
      let ?s1 = "removeRelationIndexRecord (tableName cs) (tableName rcs)
                   (correspondingIdentifierProperty rp) i s"
      from Cons.prems(1) Inr True have r: "removeRelations reg cs rps inst i ?s1 = (r, s')"
        by simp
      from Cons.prems(2) Inr True have
        k1: "k \<noteq> keyPrefix @ getRelationIndexKey (tableName cs) (tableName rcs)
                   (correspondingIdentifierProperty rp) i"
        and k2: "k \<notin> (\<lambda>x. keyPrefix @ x) ` set (relation_keys reg cs rps inst i)"
        by auto
      from Cons.IH [OF r k2] k1 show ?thesis
        by (simp add: removeRelationIndexRecord_def driver_remove_cell)
    next
      case False
      obtain r1 s1 where s1: "removeRelationIndex (tableName rcs) (tableName cs)
           (correspondingIdentifierProperty rp)
           (get_prop inst (correspondingIdentifierProperty rp)) i s = (r1, s1)"
        by (cases "removeRelationIndex (tableName rcs) (tableName cs)
           (correspondingIdentifierProperty rp)
           (get_prop inst (correspondingIdentifierProperty rp)) i s")
      from Cons.prems(2) Inr False have
        k1: "k \<noteq> keyPrefix @ getRelationIndexKey (tableName rcs) (tableName cs)
                   (correspondingIdentifierProperty rp)
                   (get_prop inst (correspondingIdentifierProperty rp))"
        and k2: "k \<notin> (\<lambda>x. keyPrefix @ x) ` set (relation_keys reg cs rps inst i)"
        by auto
      have a: "s1 k = s k" by (rule removeRelationIndex_frame [OF s1 k1])
      show ?thesis
      proof (cases r1)
        case (Inl e)
        with Cons.prems(1) Inr False s1 a show ?thesis by (simp add: Let_def)
      next
        case Inr2: (Inr u)
        with Cons.prems(1) Inr False s1 have "removeRelations reg cs rps inst i s1 = (r, s')"
          by (simp add: Let_def)
        from Cons.IH [OF this k2] a show ?thesis by simp
      qed
    qed
  qed
qed

lemma delete_frame:
  assumes "delete reg cs inst s = (r, s')"
    and "k \<notin> (\<lambda>x. keyPrefix @ x) ` set (delete_keys reg cs inst)"
  shows "s' k = s k"
proof -
  let ?t = "tableName cs" and ?i = "get_prop inst (identifierProperty cs)"
  from assms(2) have
    k1: "k \<noteq> keyPrefix @ getTableIndexKey ?t"
    and k2: "k \<notin> (\<lambda>x. keyPrefix @ x) ` set (data_keys ?t ?i (nonRelationalProperties cs))"
    and k3: "k \<notin> (\<lambda>x. keyPrefix @ x) ` set (relation_keys reg cs (relationalProperties cs) inst ?i)"
    by (auto simp: delete_keys_def)
  show ?thesis
  proof (cases "getTableIndex ?t s")
    case (Inl e)
    with assms(1) show ?thesis by (simp add: delete_def)
  next
    case (Inr index)
    show ?thesis
    proof (cases "?i \<in> set index")
      case False
      with assms(1) Inr show ?thesis by (simp add: delete_def Let_def)
    next
      case True
      obtain r1 s1 where s1: "removeTableIndex ?t ?i s = (r1, s1)"
        by (cases "removeTableIndex ?t ?i s")
      have a1: "s1 k = s k" by (rule removeTableIndex_frame [OF s1 k1])
      show ?thesis
      proof (cases r1)
        case (Inl e)
        with assms(1) Inr True s1 a1 show ?thesis by (simp add: delete_def Let_def)
      next
        case r1: (Inr u)
        obtain r2 s2 where s2: "removeProperties reg ?t ?i (nonRelationalProperties cs) s1 = (r2, s2)"
          by (cases "removeProperties reg ?t ?i (nonRelationalProperties cs) s1")
        have a2: "s2 k = s1 k" by (rule removeProperties_frame [OF s2 k2])
        show ?thesis
        proof (cases r2)
          case (Inl e)
          with assms(1) Inr True s1 r1 s2 a1 a2 show ?thesis by (simp add: delete_def Let_def)
        next
          case r2: (Inr u2)
          with assms(1) Inr True s1 r1 s2
          have "removeRelations reg cs (relationalProperties cs) inst ?i s2 = (r, s')"
            by (simp add: delete_def Let_def)
          from removeRelations_frame [OF this k3] a1 a2 show ?thesis by simp
        qed
      qed
    qed
  qed
qed


subsection \<open>delete does not consult data cells\<close>

lemma data_cell_simps [simp]:
  "\<not> data_cell (keyPrefix @ getTableIndexKey t)"
  "\<not> data_cell (keyPrefix @ getRelationIndexKey d src f v)"
  by (simp_all add: data_cell_def getTableIndexKey_eq getRelationIndexKey_eq)

lemma data_cell_getDataKey: "getDataKey reg t i p = Inr k \<Longrightarrow> data_cell (keyPrefix @ k)"
  by (auto simp: data_cell_def dest!: getDataKey_Inr)

lemma same_index_cells_read:
  "same_index_cells s1 s2 \<Longrightarrow> \<not> data_cell (keyPrefix @ key) \<Longrightarrow> driver_read key s1 = driver_read key s2"
  by (simp add: same_index_cells_def driver_read_def)

lemma same_index_cells_write:
  "same_index_cells s1 s2 \<Longrightarrow> same_index_cells (driver_write key v s1) (driver_write key v s2)"
  by (simp add: same_index_cells_def driver_write_def)

lemma same_index_cells_remove:
  "same_index_cells s1 s2 \<Longrightarrow> same_index_cells (driver_remove key s1) (driver_remove key s2)"
  by (simp add: same_index_cells_def driver_remove_def)

lemma getTableIndex_same:
  "same_index_cells s1 s2 \<Longrightarrow> getTableIndex t s1 = getTableIndex t s2"
  by (simp add: getTableIndex_def same_index_cells_read [of s1 s2])

lemma removeTableIndex_same:
  assumes "same_index_cells s1 s2"
  shows "fst (removeTableIndex t i s1) = fst (removeTableIndex t i s2)
         \<and> same_index_cells (snd (removeTableIndex t i s1)) (snd (removeTableIndex t i s2))"
  using assms same_index_cells_read [OF assms, of "getTableIndexKey t"]
  by (auto simp: removeTableIndex_def Let_def same_index_cells_write split: jsval.splits)

lemma removeRelationIndex_same:
  assumes "same_index_cells s1 s2"
  shows "fst (removeRelationIndex d src f v i s1) = fst (removeRelationIndex d src f v i s2)
         \<and> same_index_cells (snd (removeRelationIndex d src f v i s1))
                            (snd (removeRelationIndex d src f v i s2))"
  using assms same_index_cells_read [OF assms, of "getRelationIndexKey d src f v"]
  by (auto simp: removeRelationIndex_def Let_def same_index_cells_write split: jsval.splits)

lemma removeProperties_same:
  "same_index_cells s1 s2 \<Longrightarrow>
     fst (removeProperties reg t i ps s1) = fst (removeProperties reg t i ps s2)
     \<and> same_index_cells (snd (removeProperties reg t i ps s1)) (snd (removeProperties reg t i ps s2))"
  by (induction ps arbitrary: s1 s2) (auto simp: same_index_cells_remove split: sum.splits)

lemma removeRelations_same:
  "same_index_cells s1 s2 \<Longrightarrow>
     fst (removeRelations reg cs rps inst i s1) = fst (removeRelations reg cs rps inst i s2)
     \<and> same_index_cells (snd (removeRelations reg cs rps inst i s1))
                        (snd (removeRelations reg cs rps inst i s2))"
proof (induction rps arbitrary: s1 s2)
  case Nil
  then show ?case by simp
next
  case (Cons rp rps)
  show ?case
  proof (cases "getSpecificationFor reg (rel_class rp)")
    case (Inl e)
    with Cons.prems show ?thesis by simp
  next
    case (Inr rcs)
    show ?thesis
    proof (cases "isCollection rp")
      case True
      with Inr Cons.IH [OF same_index_cells_remove [OF Cons.prems]] show ?thesis
        by (simp add: removeRelationIndexRecord_def)
    next
      case False
      let ?op = "removeRelationIndex (tableName rcs) (tableName cs)
           (correspondingIdentifierProperty rp)
           (get_prop inst (correspondingIdentifierProperty rp)) i"
      from removeRelationIndex_same [OF Cons.prems]
      have f: "fst (?op s1) = fst (?op s2)" and c: "same_index_cells (snd (?op s1)) (snd (?op s2))"
        by auto
      from Cons.IH [OF c] f c Inr False show ?thesis
        by (cases "?op s1"; cases "?op s2") (auto simp: Let_def split: sum.splits)
    qed
  qed
qed

lemma delete_same:
  assumes "same_index_cells s1 s2"
  shows "fst (delete reg cs inst s1) = fst (delete reg cs inst s2)
         \<and> same_index_cells (snd (delete reg cs inst s1)) (snd (delete reg cs inst s2))"
proof -
  let ?t = "tableName cs" and ?i = "get_prop inst (identifierProperty cs)"
  let ?a = "removeTableIndex ?t ?i"
  let ?b = "removeProperties reg ?t ?i (nonRelationalProperties cs)"
  let ?c = "removeRelations reg cs (relationalProperties cs) inst ?i"
  note g = getTableIndex_same [OF assms, of ?t]
  from removeTableIndex_same [OF assms]
  have a: "fst (?a s1) = fst (?a s2)" "same_index_cells (snd (?a s1)) (snd (?a s2))"
    by auto
  from removeProperties_same [OF a(2)]
  have b: "fst (?b (snd (?a s1))) = fst (?b (snd (?a s2)))"
    "same_index_cells (snd (?b (snd (?a s1)))) (snd (?b (snd (?a s2))))"
    by auto
  note c = removeRelations_same [OF b(2), of reg cs "relationalProperties cs" inst ?i]
  show ?thesis
    unfolding delete_def Let_def g
    using assms a b c
    by (cases "?a s1"; cases "?a s2"; cases "?b (snd (?a s1))"; cases "?b (snd (?a s2))")
       (auto split: sum.splits)
qed


subsection \<open>What a successful delete leaves behind\<close>

lemma is_identifier_simps [simp]:
  "\<not> is_identifier Undefined" "\<not> is_identifier Null" "\<not> is_identifier (Bool b)"
  "is_identifier (Num n)" "is_identifier (Str x)"
  by (simp_all add: is_identifier_def)

lemma not_in_normalised:
  "is_identifier i \<Longrightarrow> i \<notin> set xs \<Longrightarrow> i \<notin> set (map (\<lambda>x. if x = Undefined then Null else x) xs)"
  by (auto simp: is_identifier_def)

lemma bucket_lacks_absent: "s (keyPrefix @ K) = None \<Longrightarrow> bucket_lacks K i s"
  by (simp add: bucket_lacks_def driver_read_def)

lemma removeRelationIndex_lacks:
  "removeRelationIndex d src f v i s = (Inr u, s') \<Longrightarrow> is_identifier i
     \<Longrightarrow> bucket_lacks (getRelationIndexKey d src f v) i s'"
  by (auto simp: removeRelationIndex_def Let_def bucket_lacks_def driver_read_def driver_write_def
        not_in_normalised
      split: if_splits jsval.splits option.splits item.splits)

lemma removeRelationIndex_keeps_lacks:
  "removeRelationIndex d src f v i s = (r, s') \<Longrightarrow> is_identifier i \<Longrightarrow> bucket_lacks K i s
     \<Longrightarrow> bucket_lacks K i s'"
  by (auto simp: removeRelationIndex_def Let_def bucket_lacks_def driver_read_def driver_write_def
        not_in_normalised
      split: if_splits jsval.splits option.splits item.splits)

lemma removeRelationIndex_keeps_absent:
  "removeRelationIndex d src f v i s = (r, s') \<Longrightarrow> s (keyPrefix @ K) = None
     \<Longrightarrow> s' (keyPrefix @ K) = None"
  by (auto simp: removeRelationIndex_def Let_def driver_read_def driver_write_def
      split: if_splits jsval.splits option.splits item.splits)

lemma removeRelations_keeps_lacks:
  "removeRelations reg cs rps inst i s = (r, s') \<Longrightarrow> is_identifier i \<Longrightarrow> bucket_lacks K i s
     \<Longrightarrow> bucket_lacks K i s'"
proof (induction rps arbitrary: s)
  case Nil
  then show ?case by simp
next
  case (Cons rp rps)
  show ?case
  proof (cases "getSpecificationFor reg (rel_class rp)")
    case (Inl e)
    with Cons.prems show ?thesis by simp
  next
    case (Inr rcs)
    show ?thesis
    proof (cases "isCollection rp")
      case True
      let ?s1 = "removeRelationIndexRecord (tableName cs) (tableName rcs)
                   (correspondingIdentifierProperty rp) i s"
      from Cons.prems(1) Inr True have r: "removeRelations reg cs rps inst i ?s1 = (r, s')"
        by simp
      from Cons.prems(3) have "bucket_lacks K i ?s1"
        by (auto simp: bucket_lacks_def driver_read_def removeRelationIndexRecord_def
              driver_remove_def)
      from Cons.IH [OF r Cons.prems(2) this] show ?thesis .
    next
      case False
      obtain r1 s1 where s1: "removeRelationIndex (tableName rcs) (tableName cs)
           (correspondingIdentifierProperty rp)
           (get_prop inst (correspondingIdentifierProperty rp)) i s = (r1, s1)"
        by (cases "removeRelationIndex (tableName rcs) (tableName cs)
           (correspondingIdentifierProperty rp)
           (get_prop inst (correspondingIdentifierProperty rp)) i s")
      note a = removeRelationIndex_keeps_lacks [OF s1 Cons.prems(2,3)]
      show ?thesis
      proof (cases r1)
        case (Inl e)
        with Cons.prems(1) Inr False s1 a show ?thesis by (simp add: Let_def)
      next
        case Inr2: (Inr u)
        with Cons.prems(1) Inr False s1 have "removeRelations reg cs rps inst i s1 = (r, s')"
          by (simp add: Let_def)
        from Cons.IH [OF this Cons.prems(2) a] show ?thesis .
      qed
    qed
  qed
qed

lemma removeRelations_keeps_absent:
  "removeRelations reg cs rps inst i s = (r, s') \<Longrightarrow> s (keyPrefix @ K) = None
     \<Longrightarrow> s' (keyPrefix @ K) = None"
proof (induction rps arbitrary: s)
  case Nil
  then show ?case by simp
next
  case (Cons rp rps)
  show ?case
  proof (cases "getSpecificationFor reg (rel_class rp)")
    case (Inl e)
    with Cons.prems show ?thesis by simp
  next
    case (Inr rcs)
    show ?thesis
    proof (cases "isCollection rp")
      case True
      let ?s1 = "removeRelationIndexRecord (tableName cs) (tableName rcs)
                   (correspondingIdentifierProperty rp) i s"
      from Cons.prems(1) Inr True have r: "removeRelations reg cs rps inst i ?s1 = (r, s')"
        by simp
      from Cons.prems(2) have "?s1 (keyPrefix @ K) = None"
        by (simp add: removeRelationIndexRecord_def driver_remove_def)
      from Cons.IH [OF r this] show ?thesis .
    next
      case False
      obtain r1 s1 where s1: "removeRelationIndex (tableName rcs) (tableName cs)
           (correspondingIdentifierProperty rp)
           (get_prop inst (correspondingIdentifierProperty rp)) i s = (r1, s1)"
        by (cases "removeRelationIndex (tableName rcs) (tableName cs)
           (correspondingIdentifierProperty rp)
           (get_prop inst (correspondingIdentifierProperty rp)) i s")
      note a = removeRelationIndex_keeps_absent [OF s1 Cons.prems(2)]
      show ?thesis
      proof (cases r1)
        case (Inl e)
        with Cons.prems(1) Inr False s1 a show ?thesis by (simp add: Let_def)
      next
        case Inr2: (Inr u)
        with Cons.prems(1) Inr False s1 have "removeRelations reg cs rps inst i s1 = (r, s')"
          by (simp add: Let_def)
        from Cons.IH [OF this a] show ?thesis .
      qed
    qed
  qed
qed

lemma getRelationIndex_absent:
  "s (keyPrefix @ getRelationIndexKey d src f v) = None \<Longrightarrow> getRelationIndex d src f v s = Inr None"
  by (simp add: getRelationIndex_def driver_read_def)

lemma removeRelations_cleaned:
  "removeRelations reg cs rps inst i s = (Inr u, s') \<Longrightarrow> is_identifier i
     \<Longrightarrow> rp \<in> set rps \<Longrightarrow> getSpecificationFor reg (rel_class rp) = Inr rcs
     \<Longrightarrow> relation_cleaned cs inst i rp rcs s'"
proof (induction rps arbitrary: s)
  case Nil
  then show ?case by simp
next
  case (Cons rp0 rps)
  from Cons.prems(1) obtain rcs0 where g: "getSpecificationFor reg (rel_class rp0) = Inr rcs0"
    by (cases "getSpecificationFor reg (rel_class rp0)") auto
  show ?case
  proof (cases "isCollection rp0")
    case True
    let ?s1 = "removeRelationIndexRecord (tableName cs) (tableName rcs0)
                 (correspondingIdentifierProperty rp0) i s"
    from Cons.prems(1) g True have r: "removeRelations reg cs rps inst i ?s1 = (Inr u, s')"
      by simp
    show ?thesis
    proof (cases "rp \<in> set rps")
      case True
      from Cons.IH [OF r Cons.prems(2) True Cons.prems(4)] show ?thesis .
    next
      case False
      with Cons.prems(3) have e: "rp = rp0" by simp
      with g Cons.prems(4) have e2: "rcs = rcs0" by simp
      have "?s1 (keyPrefix @ getRelationIndexKey (tableName cs) (tableName rcs0)
                 (correspondingIdentifierProperty rp0) i) = None"
        by (simp add: removeRelationIndexRecord_def driver_remove_def)
      from removeRelations_keeps_absent [OF r this] True show ?thesis
        by (simp add: relation_cleaned_def e e2 getRelationIndex_absent)
    qed
  next
    case c: False
    let ?K = "getRelationIndexKey (tableName rcs0) (tableName cs)
           (correspondingIdentifierProperty rp0)
           (get_prop inst (correspondingIdentifierProperty rp0))"
    obtain r1 s1 where s1: "removeRelationIndex (tableName rcs0) (tableName cs)
           (correspondingIdentifierProperty rp0)
           (get_prop inst (correspondingIdentifierProperty rp0)) i s = (r1, s1)"
      by (cases "removeRelationIndex (tableName rcs0) (tableName cs)
           (correspondingIdentifierProperty rp0)
           (get_prop inst (correspondingIdentifierProperty rp0)) i s")
    from Cons.prems(1) g c s1 obtain u1 where r1: "r1 = Inr u1"
      by (cases r1) (auto simp: Let_def)
    from Cons.prems(1) g c s1 r1 have r: "removeRelations reg cs rps inst i s1 = (Inr u, s')"
      by (simp add: Let_def)
    show ?thesis
    proof (cases "rp \<in> set rps")
      case True
      from Cons.IH [OF r Cons.prems(2) True Cons.prems(4)] show ?thesis .
    next
      case False
      with Cons.prems(3) have e: "rp = rp0" by simp
      with g Cons.prems(4) have e2: "rcs = rcs0" by simp
      from s1 r1 have "bucket_lacks ?K i s1"
        using removeRelationIndex_lacks [OF _ Cons.prems(2)] by blast
      from removeRelations_keeps_lacks [OF r Cons.prems(2) this] c show ?thesis
        by (simp add: relation_cleaned_def e e2)
    qed
  qed
qed


lemma last_data_keys: "k \<in> set (data_keys t i ps) \<Longrightarrow> last k = CHR '';''"
  by (auto simp: data_keys_def)

lemma table_key_not_in_data_keys:
  "keyPrefix @ getTableIndexKey t \<notin> (\<lambda>x. keyPrefix @ x) ` set (data_keys t' i ps)"
proof
  assume "keyPrefix @ getTableIndexKey t \<in> (\<lambda>x. keyPrefix @ x) ` set (data_keys t' i ps)"
  then have "getTableIndexKey t \<in> set (data_keys t' i ps)" by auto
  then have "last (getTableIndexKey t) = CHR '';''" by (rule last_data_keys)
  then show False by simp
qed

lemma relation_key_not_in_data_keys:
  "keyPrefix @ getRelationIndexKey d src f v \<notin> (\<lambda>x. keyPrefix @ x) ` set (data_keys t' i ps)"
proof
  assume "keyPrefix @ getRelationIndexKey d src f v \<in> (\<lambda>x. keyPrefix @ x) ` set (data_keys t' i ps)"
  then have "getRelationIndexKey d src f v \<in> set (data_keys t' i ps)" by auto
  then have "last (getRelationIndexKey d src f v) = CHR '';''" by (rule last_data_keys)
  then show False by simp
qed

lemma table_key_not_in_relation_keys:
  "getTableIndexKey (tableName cs) \<notin> set (relation_keys reg cs rps inst i)"
proof (induction rps)
  case Nil
  then show ?case by simp
next
  case (Cons rp rps)
  have a: "getTableIndexKey (tableName cs) \<noteq> getRelationIndexKey (tableName cs) x f v" for x f v
    by (rule not_sym) (rule relation_key_not_table_key_dest)
  have b: "getTableIndexKey (tableName cs) \<noteq> getRelationIndexKey x (tableName cs) f v" for x f v
    by (rule not_sym) (rule relation_key_not_table_key_src)
  from Cons a b show ?case
    by (auto split: sum.splits)
qed

text \<open>The steps of a delete that succeeds on an identifier of the index.\<close>

lemma delete_steps:
  assumes "delete reg cs inst s = (Inr u, s')"
    and "getTableIndex (tableName cs) s = Inr index"
    and "get_prop inst (identifierProperty cs) \<in> set index"
  obtains s1 s2 where
    "removeTableIndex (tableName cs) (get_prop inst (identifierProperty cs)) s = (Inr (), s1)"
    "removeProperties reg (tableName cs) (get_prop inst (identifierProperty cs))
       (nonRelationalProperties cs) s1 = (Inr (), s2)"
    "removeRelations reg cs (relationalProperties cs) inst
       (get_prop inst (identifierProperty cs)) s2 = (Inr (), s')"
proof -
  let ?t = "tableName cs" and ?i = "get_prop inst (identifierProperty cs)"
  obtain r1 s1 where s1: "removeTableIndex ?t ?i s = (r1, s1)"
    by (cases "removeTableIndex ?t ?i s")
  obtain r2 s2 where s2: "removeProperties reg ?t ?i (nonRelationalProperties cs) s1 = (r2, s2)"
    by (cases "removeProperties reg ?t ?i (nonRelationalProperties cs) s1")
  from assms s1 have r1: "r1 = Inr ()"
    by (cases r1) (auto simp: delete_def Let_def)
  from assms s1 r1 s2 have r2: "r2 = Inr ()"
    by (cases r2) (auto simp: delete_def Let_def)
  from assms s1 r1 s2 r2
  have "removeRelations reg cs (relationalProperties cs) inst ?i s2 = (Inr (), s')"
    by (simp add: delete_def Let_def)
  with s1 r1 s2 r2 show thesis by (intro that) auto
qed

lemma removeTableIndex_listed:
  assumes "getTableIndex t s = Inr index" and "i \<in> set index"
    and "removeTableIndex t i s = (r, s1)"
  shows "s1 (keyPrefix @ getTableIndexKey t)
           = Some (Text_json (Array (map (\<lambda>x. if x = Undefined then Null else x)
                                        (filter (\<lambda>x. x \<noteq> i) index))))"
  using assms
  by (auto simp: getTableIndex_def removeTableIndex_def Let_def driver_write_def
      split: if_splits jsval.splits)

lemma getTableIndex_cell:
  "s (keyPrefix @ getTableIndexKey t) = Some (Text_json (Array xs)) \<Longrightarrow> getTableIndex t s = Inr xs"
  by (simp add: getTableIndex_def driver_read_def)


lemma getRelationIndex_cell_cong:
  "s1 (keyPrefix @ getRelationIndexKey d src f v) = s2 (keyPrefix @ getRelationIndexKey d src f v)
     \<Longrightarrow> getRelationIndex d src f v s1 = getRelationIndex d src f v s2"
  by (simp add: getRelationIndex_def driver_read_def)

lemma relation_key_outside_delete_keys:
  assumes "getRelationIndexKey d (tableName cs) f v
             \<notin> set (relation_keys reg cs (relationalProperties cs) inst
                      (get_prop inst (identifierProperty cs)))"
  shows "keyPrefix @ getRelationIndexKey d (tableName cs) f v
           \<notin> (\<lambda>x. keyPrefix @ x) ` set (delete_keys reg cs inst)"
proof -
  have "getRelationIndexKey d (tableName cs) f v
          \<notin> set (data_keys (tableName cs) (get_prop inst (identifierProperty cs))
                   (nonRelationalProperties cs))"
  proof
    assume "getRelationIndexKey d (tableName cs) f v
          \<in> set (data_keys (tableName cs) (get_prop inst (identifierProperty cs))
                   (nonRelationalProperties cs))"
    then have "last (getRelationIndexKey d (tableName cs) f v) = CHR '';''"
      by (rule last_data_keys)
    then show False by simp
  qed
  with assms show ?thesis
    by (auto simp: delete_keys_def)
qed


declare createOrUpdate.simps [simp del] create.simps [simp del] update.simps [simp del]
  handleRelationalProperties.simps(2) [simp del] cascadeCollection.simps(2) [simp del]

subsection \<open>Invariants of the cascade\<close>

lemma writeProperties_generic:
  assumes w: "\<And>k v s. data_cell (keyPrefix @ k) \<Longrightarrow> Q s \<Longrightarrow> Q (driver_write k (Scalar v) s)"
    and dk: "\<And>p e. p \<in> set ps \<Longrightarrow> getDataKey reg t i p = Inl e \<Longrightarrow> E e"
  shows "writeProperties reg t i ps inst s = (r, s') \<Longrightarrow> Q s \<Longrightarrow> Q s' \<and> (\<forall>e. r = Inl e \<longrightarrow> E e)"
  using dk
proof (induction ps arbitrary: s)
  case Nil
  then show ?case by auto
next
  case (Cons p ps)
  show ?case
  proof (cases "getDataKey reg t i p")
    case (Inl e)
    with Cons.prems show ?thesis by auto
  next
    case (Inr k)
    have "Q (driver_write k
              (Scalar (if get_prop inst p = Undefined then Null else get_prop inst p)) s)"
      by (rule w [OF data_cell_getDataKey [OF Inr] Cons.prems(2)])
    moreover from Cons.prems(1) Inr
    have "writeProperties reg t i ps inst
            (driver_write k
              (Scalar (if get_prop inst p = Undefined then Null else get_prop inst p)) s)
          = (r, s')"
      by (simp add: Let_def)
    ultimately show ?thesis
      using Cons.IH Cons.prems(3) by auto
  qed
qed

text \<open>
  The cascade, generically: \<open>Q\<close> is a property of the store that the three kinds of write
  preserve, \<open>E\<close> a property of the errors that can be raised, \<open>G\<close> a property of the
  specifications the cascade visits.
\<close>

lemma cascade_generic:
  fixes Q :: "localStorage \<Rightarrow> bool" and E :: "error \<Rightarrow> bool"
    and G :: "registry \<Rightarrow> ClassSpecification \<Rightarrow> bool"
  assumes a: "\<And>t i s r s'. addTableIndex t i s = (r, s') \<Longrightarrow> Q s
                \<Longrightarrow> Q s' \<and> (\<forall>e. r = Inl e \<longrightarrow> E e)"
    and b: "\<And>d src f v i s r s'. addRelationIndex d src f v i s = (r, s') \<Longrightarrow> Q s
                \<Longrightarrow> Q s' \<and> (\<forall>e. r = Inl e \<longrightarrow> E e)"
    and w: "\<And>k v s. data_cell (keyPrefix @ k) \<Longrightarrow> Q s \<Longrightarrow> Q (driver_write k (Scalar v) s)"
    and g: "\<And>t s e. Q s \<Longrightarrow> getTableIndex t s = Inl e \<Longrightarrow> E e"
    and dk: "\<And>reg cs i p e. G reg cs \<Longrightarrow> p \<in> set (nonRelationalProperties cs)
                \<Longrightarrow> getDataKey reg (tableName cs) i p = Inl e \<Longrightarrow> E e"
    and sp: "\<And>reg cs rp. G reg cs \<Longrightarrow> rp \<in> set (relationalProperties cs)
                \<Longrightarrow> (case getSpecificationFor reg (rel_class rp) of
                       Inl e \<Rightarrow> E e | Inr rcs \<Rightarrow> G reg rcs)"
  shows "\<forall>r s'. createOrUpdate reg cs inst s = (r, s') \<longrightarrow> G reg cs \<longrightarrow> Q s
           \<longrightarrow> Q s' \<and> (\<forall>e. r = Inl e \<longrightarrow> E e)"
    and "\<forall>r s'. create reg cs inst s = (r, s') \<longrightarrow> G reg cs \<longrightarrow> Q s
           \<longrightarrow> Q s' \<and> (\<forall>e. r = Inl e \<longrightarrow> E e)"
    and "\<forall>r s'. update reg cs inst s = (r, s') \<longrightarrow> G reg cs \<longrightarrow> Q s
           \<longrightarrow> Q s' \<and> (\<forall>e. r = Inl e \<longrightarrow> E e)"
    and "\<forall>r s'. handleRelationalProperties reg cs rps inst i s = (r, s') \<longrightarrow> G reg cs
           \<longrightarrow> set rps \<subseteq> set (relationalProperties cs) \<longrightarrow> Q s
           \<longrightarrow> Q s' \<and> (\<forall>e. r = Inl e \<longrightarrow> E e)"
    and "\<forall>r s'. cascadeCollection reg rcs fk idOfSource xs s = (r, s') \<longrightarrow> G reg rcs \<longrightarrow> Q s
           \<longrightarrow> Q s' \<and> (\<forall>e. r = Inl e \<longrightarrow> E e)"
proof (induction reg cs inst s and reg cs inst s and reg cs inst s and reg cs rps inst i s
    and reg rcs fk idOfSource xs s
    rule: createOrUpdate_create_update_handleRelationalProperties_cascadeCollection.induct)
  case (1 reg cs inst s)
  let ?i = "get_prop inst (identifierProperty cs)"
  show ?case
  proof (intro allI impI)
    fix r s'
    assume h: "createOrUpdate reg cs inst s = (r, s')" and gc: "G reg cs" and q: "Q s"
    show "Q s' \<and> (\<forall>e. r = Inl e \<longrightarrow> E e)"
    proof (cases "getTableIndex (tableName cs) s")
      case (Inl e)
      with h q g [OF q Inl] show ?thesis
        by (auto simp: createOrUpdate.simps)
    next
      case (Inr index)
      show ?thesis
      proof (cases "?i \<in> set index")
        case True
        obtain r1 s1 where s1: "update reg cs inst s = (r1, s1)"
          by (cases "update reg cs inst s")
        from "1.IH"(1) [OF Inr refl True] s1 gc q
        have "Q s1 \<and> (\<forall>e. r1 = Inl e \<longrightarrow> E e)" by blast
        with h Inr True s1 show ?thesis
          by (cases r1) (auto simp: createOrUpdate.simps Let_def)
      next
        case False
        with h Inr have "create reg cs inst s = (r, s')"
          by (auto simp: createOrUpdate.simps Let_def)
        with "1.IH"(2) [OF Inr refl False] gc q show ?thesis by blast
      qed
    qed
  qed
next
  case (2 reg cs inst s)
  let ?i = "get_prop inst (identifierProperty cs)"
  show ?case
  proof (intro allI impI)
    fix r s'
    assume h: "create reg cs inst s = (r, s')" and gc: "G reg cs" and q: "Q s"
    obtain r1 s1 where s1: "handleRelationalProperties reg cs (relationalProperties cs)
        inst ?i s = (r1, s1)"
      by (cases "handleRelationalProperties reg cs (relationalProperties cs) inst ?i s")
    from 2 [OF refl] s1 gc q have q1: "Q s1" "\<forall>e. r1 = Inl e \<longrightarrow> E e" by auto
    obtain r2 s2 where s2: "addTableIndex (tableName cs) ?i s1 = (r2, s2)"
      by (cases "addTableIndex (tableName cs) ?i s1")
    from a [OF s2 q1(1)] have q2: "Q s2" "\<forall>e. r2 = Inl e \<longrightarrow> E e" by auto
    show "Q s' \<and> (\<forall>e. r = Inl e \<longrightarrow> E e)"
    proof (cases r1)
      case (Inl e)
      with h s1 q1 show ?thesis by (auto simp: create.simps Let_def)
    next
      case r1: (Inr inst1)
      obtain r3 s3 where s3: "writeProperties reg (tableName cs) ?i
          (nonRelationalProperties cs) inst1 s2 = (r3, s3)"
        by (cases "writeProperties reg (tableName cs) ?i (nonRelationalProperties cs) inst1 s2")
      have q3: "Q s3 \<and> (\<forall>e. r3 = Inl e \<longrightarrow> E e)"
      proof (rule writeProperties_generic [where Q = Q and E = E, OF _ _ s3 q2(1)])
        show "Q (driver_write k (Scalar v) s)" if "data_cell (keyPrefix @ k)" "Q s" for k v s
          using that by (rule w)
        show "E e" if "p \<in> set (nonRelationalProperties cs)"
          "getDataKey reg (tableName cs) ?i p = Inl e" for p e
          using gc that by (rule dk)
      qed
      from h s1 r1 s2 s3 q2 q3 show ?thesis
        by (cases r2; cases r3) (auto simp: create.simps Let_def)
    qed
  qed
next
  case (3 reg cs inst s)
  let ?i = "get_prop inst (identifierProperty cs)"
  show ?case
  proof (intro allI impI)
    fix r s'
    assume h: "update reg cs inst s = (r, s')" and gc: "G reg cs" and q: "Q s"
    obtain r1 s1 where s1: "handleRelationalProperties reg cs (relationalProperties cs)
        inst ?i s = (r1, s1)"
      by (cases "handleRelationalProperties reg cs (relationalProperties cs) inst ?i s")
    from 3 [OF refl] s1 gc q have q1: "Q s1" "\<forall>e. r1 = Inl e \<longrightarrow> E e" by auto
    show "Q s' \<and> (\<forall>e. r = Inl e \<longrightarrow> E e)"
    proof (cases r1)
      case (Inl e)
      with h s1 q1 show ?thesis by (auto simp: update.simps Let_def)
    next
      case r1: (Inr inst1)
      with h s1 have s3: "writeProperties reg (tableName cs) ?i
          (nonRelationalProperties cs) inst1 s1 = (r, s')"
        by (auto simp: update.simps Let_def)
      show ?thesis
      proof (rule writeProperties_generic [where Q = Q and E = E, OF _ _ s3 q1(1)])
        show "Q (driver_write k (Scalar v) s)" if "data_cell (keyPrefix @ k)" "Q s" for k v s
          using that by (rule w)
        show "E e" if "p \<in> set (nonRelationalProperties cs)"
          "getDataKey reg (tableName cs) ?i p = Inl e" for p e
          using gc that by (rule dk)
      qed
    qed
  qed
next
  case (4 reg cs inst ident s)
  then show ?case by simp
next
  case (5 reg cs rp rest inst ident s)
  note ih1 = "5.IH"(1) and ih2 = "5.IH"(2) and ih3 = "5.IH"(3) and ih4 = "5.IH"(4)
    and ih5 = "5.IH"(5) and ih6 = "5.IH"(6)
  show ?case
  proof (intro allI impI)
    fix r s'
    assume h: "handleRelationalProperties reg cs (rp # rest) inst ident s = (r, s')"
      and gc: "G reg cs" and sub: "set (rp # rest) \<subseteq> set (relationalProperties cs)"
      and q: "Q s"
    from sub have rpin: "rp \<in> set (relationalProperties cs)"
      and sub': "set rest \<subseteq> set (relationalProperties cs)" by auto
    note spc = sp [OF gc rpin]
    show "Q s' \<and> (\<forall>e. r = Inl e \<longrightarrow> E e)"
    proof (cases "isCollection rp")
      case False
      show ?thesis
      proof (cases "getSpecificationFor reg (rel_class rp)")
        case (Inl e)
        with h False q spc show ?thesis
          by (auto simp: handleRelationalProperties.simps)
      next
        case (Inr rcs)
        with spc have grc: "G reg rcs" by simp
        let ?idOnSource = "get_prop inst (correspondingIdentifierProperty rp)"
        show ?thesis
        proof (cases "map_of (ones inst) (name rp)")
          case None
          obtain r2 s2 where s2: "addRelationIndex (tableName rcs) (tableName cs)
              (correspondingIdentifierProperty rp) ?idOnSource ident s = (r2, s2)"
            by (cases "addRelationIndex (tableName rcs) (tableName cs)
              (correspondingIdentifierProperty rp) ?idOnSource ident s")
          from b [OF s2 q] have q2: "Q s2" "\<forall>e. r2 = Inl e \<longrightarrow> E e" by auto
          show ?thesis
          proof (cases r2)
            case (Inl e)
            with h False Inr None s2 q2 show ?thesis
              by (auto simp: handleRelationalProperties.simps)
          next
            case r2: (Inr u)
            with h False Inr None s2
            have "handleRelationalProperties reg cs rest inst ident s2 = (r, s')"
              by (auto simp: handleRelationalProperties.simps)
            with ih2 [OF False Inr refl, of "Inr (?idOnSource, inst)" s "(?idOnSource, inst)"
                ?idOnSource inst "Inr u" s2 u] None s2 r2 q2 gc sub'
            show ?thesis by simp
          qed
        next
          case (Some relatedData)
          let ?id1 = "if \<not> truthy_scalar ?idOnSource
                      then get_prop relatedData (identifierProperty rcs) else ?idOnSource"
          let ?inst1 = "if \<not> truthy_scalar ?idOnSource
                        then assign_prop (correspondingIdentifierProperty rp) ?id1 inst else inst"
          obtain r1 s1 where s1: "createOrUpdate reg rcs relatedData s = (r1, s1)"
            by (cases "createOrUpdate reg rcs relatedData s")
          from ih1 [OF False Inr refl Some refl refl] s1 grc q
          have q1: "Q s1" "\<forall>e. r1 = Inl e \<longrightarrow> E e"
            by auto
          show ?thesis
          proof (cases r1)
            case (Inl e)
            with h False Inr Some s1 q1 show ?thesis
              by (auto simp: handleRelationalProperties.simps Let_def)
          next
            case r1: (Inr u1)
            obtain r2 s2 where s2: "addRelationIndex (tableName rcs) (tableName cs)
                (correspondingIdentifierProperty rp) ?id1 ident s1 = (r2, s2)"
              by (cases "addRelationIndex (tableName rcs) (tableName cs)
                (correspondingIdentifierProperty rp) ?id1 ident s1")
            from b [OF s2 q1(1)] have q2: "Q s2" "\<forall>e. r2 = Inl e \<longrightarrow> E e" by auto
            show ?thesis
            proof (cases r2)
              case (Inl e)
              with h False Inr Some s1 r1 s2 q2 show ?thesis
                by (auto simp: handleRelationalProperties.simps Let_def)
            next
              case r2: (Inr u)
              with h False Inr Some s1 r1 s2
              have "handleRelationalProperties reg cs rest ?inst1 ident s2 = (r, s')"
                by (auto simp: handleRelationalProperties.simps Let_def)
              with ih2 [OF False Inr refl, of "Inr (?id1, ?inst1)" s1 "(?id1, ?inst1)"
                  ?id1 ?inst1 "Inr u" s2 u] Some s1 r1 s2 r2 q2 gc sub'
              show ?thesis by (simp add: Let_def)
            qed
          qed
        qed
      qed
    next
      case True
      show ?thesis
      proof (cases "map_of (manys inst) (name rp)")
        case None
        with h True have "handleRelationalProperties reg cs rest inst ident s = (r, s')"
          by (auto simp: handleRelationalProperties.simps)
        with ih3 True None q gc sub' show ?thesis by simp
      next
        case (Some relatedDataList)
        show ?thesis
        proof (cases "relatedDataList = []")
          case e: True
          with h True Some
          have "handleRelationalProperties reg cs rest inst ident s = (r, s')"
            by (auto simp: handleRelationalProperties.simps)
          with ih4 True Some e q gc sub' show ?thesis by simp
        next
          case ne: False
          show ?thesis
          proof (cases "getSpecificationFor reg (rel_class rp)")
            case (Inl e)
            with h True Some ne q spc show ?thesis
              by (auto simp: handleRelationalProperties.simps)
          next
            case (Inr rcs)
            with spc have grc: "G reg rcs" by simp
            obtain r1 s1 where s1: "cascadeCollection reg rcs
                (correspondingIdentifierProperty rp) (get_prop inst (identifierProperty cs))
                relatedDataList s = (r1, s1)"
              by (cases "cascadeCollection reg rcs
                (correspondingIdentifierProperty rp) (get_prop inst (identifierProperty cs))
                relatedDataList s")
            from ih5 True Some ne Inr s1 q grc
            have q1: "Q s1" "\<forall>e. r1 = Inl e \<longrightarrow> E e" by auto
            show ?thesis
            proof (cases r1)
              case (Inl e)
              with h True Some ne Inr s1 q1 show ?thesis
                by (auto simp: handleRelationalProperties.simps)
            next
              case r1: (Inr u)
              with h True Some ne Inr s1
              have "handleRelationalProperties reg cs rest inst ident s1 = (r, s')"
                by (auto simp: handleRelationalProperties.simps)
              with ih6 [OF _ Some ne Inr, of r1 s1 u] True s1 r1 q1 gc sub'
              show ?thesis by simp
            qed
          qed
        qed
      qed
    qed
  qed
next
  case (6 reg rcs fk idOfSource s)
  then show ?case by simp
next
  case (7 reg rcs fk idOfSource relatedData others s)
  show ?case
  proof (intro allI impI)
    fix r s'
    assume h: "cascadeCollection reg rcs fk idOfSource (relatedData # others) s = (r, s')"
      and gc: "G reg rcs" and q: "Q s"
    obtain r1 s1 where s1: "createOrUpdate reg rcs (assign_prop fk idOfSource relatedData) s
        = (r1, s1)"
      by (cases "createOrUpdate reg rcs (assign_prop fk idOfSource relatedData) s")
    from "7.IH"(1) s1 gc q have q1: "Q s1" "\<forall>e. r1 = Inl e \<longrightarrow> E e" by auto
    show "Q s' \<and> (\<forall>e. r = Inl e \<longrightarrow> E e)"
    proof (cases r1)
      case (Inl e)
      with h s1 q1 show ?thesis by (auto simp: cascadeCollection.simps)
    next
      case r1: (Inr u)
      with h s1 have "cascadeCollection reg rcs fk idOfSource others s1 = (r, s')"
        by (auto simp: cascadeCollection.simps)
      with "7.IH"(2) [of r1 s1 u] s1 r1 q1 gc show ?thesis by simp
    qed
  qed
qed


subsection \<open>Arrays without duplicates\<close>

lemma filter_identifier_normalised:
  "filter is_identifier (map (\<lambda>x. if x = Undefined then Null else x) xs) = filter is_identifier xs"
  by (induction xs) auto

lemma distinct_filter_removed:
  "distinct (filter is_identifier xs) \<Longrightarrow> distinct (filter is_identifier (filter (\<lambda>x. x \<noteq> i) xs))"
  by (induction xs) auto

lemma distinct_count_le_1: "distinct xs \<Longrightarrow> count_list xs j \<le> 1"
  by (induction xs) (auto simp: count_list_0_iff)

lemma unique_write_array:
  "index_cells_unique s \<Longrightarrow> distinct (filter is_identifier xs)
     \<Longrightarrow> index_cells_unique (driver_write key (Array xs) s)"
  by (auto simp: index_cells_unique_def driver_write_def filter_identifier_normalised)

lemma unique_write_scalar:
  "index_cells_unique s \<Longrightarrow> index_cells_unique (driver_write key (Scalar v) s)"
  by (auto simp: index_cells_unique_def driver_write_def)

lemma unique_remove:
  "index_cells_unique s \<Longrightarrow> index_cells_unique (driver_remove key s)"
  by (auto simp: index_cells_unique_def driver_remove_def)

lemma unique_read:
  "index_cells_unique s \<Longrightarrow> driver_read key s = Array xs \<Longrightarrow> distinct (filter is_identifier xs)"
  by (auto simp: index_cells_unique_def driver_read_def split: option.splits item.splits)

lemma addTableIndex_unique:
  "addTableIndex t i s = (r, s') \<Longrightarrow> index_cells_unique s \<Longrightarrow> index_cells_unique s'"
  by (auto simp: addTableIndex_def Let_def split: if_splits jsval.splits
        intro!: unique_write_array dest: unique_read)

lemma addRelationIndex_unique:
  "addRelationIndex d src f v i s = (r, s') \<Longrightarrow> index_cells_unique s \<Longrightarrow> index_cells_unique s'"
  by (auto simp: addRelationIndex_def Let_def split: if_splits jsval.splits
        intro!: unique_write_array dest: unique_read)

lemma removeTableIndex_unique:
  "removeTableIndex t i s = (r, s') \<Longrightarrow> index_cells_unique s \<Longrightarrow> index_cells_unique s'"
  by (auto simp del: filter_filter simp: removeTableIndex_def Let_def
        split: if_splits jsval.splits
        intro!: unique_write_array distinct_filter_removed dest: unique_read)

lemma removeRelationIndex_unique:
  "removeRelationIndex d src f v i s = (r, s') \<Longrightarrow> index_cells_unique s \<Longrightarrow> index_cells_unique s'"
  by (auto simp del: filter_filter simp: removeRelationIndex_def Let_def
        split: if_splits jsval.splits
        intro!: unique_write_array distinct_filter_removed dest: unique_read)

lemma removeProperties_unique:
  "removeProperties reg t i ps s = (r, s') \<Longrightarrow> index_cells_unique s \<Longrightarrow> index_cells_unique s'"
  by (induction ps arbitrary: s) (auto split: sum.splits intro: unique_remove)

lemma removeRelations_unique:
  "removeRelations reg cs rps inst i s = (r, s') \<Longrightarrow> index_cells_unique s \<Longrightarrow> index_cells_unique s'"
proof (induction rps arbitrary: s)
  case Nil
  then show ?case by simp
next
  case (Cons rp rps)
  show ?case
  proof (cases "getSpecificationFor reg (rel_class rp)")
    case (Inl e)
    with Cons.prems show ?thesis by simp
  next
    case (Inr rcs)
    show ?thesis
    proof (cases "isCollection rp")
      case True
      with Cons.prems Inr Cons.IH [OF _ unique_remove [OF Cons.prems(2)]] show ?thesis
        by (simp add: removeRelationIndexRecord_def)
    next
      case False
      obtain r1 s1 where s1: "removeRelationIndex (tableName rcs) (tableName cs)
           (correspondingIdentifierProperty rp)
           (get_prop inst (correspondingIdentifierProperty rp)) i s = (r1, s1)"
        by (cases "removeRelationIndex (tableName rcs) (tableName cs)
           (correspondingIdentifierProperty rp)
           (get_prop inst (correspondingIdentifierProperty rp)) i s")
      note u1 = removeRelationIndex_unique [OF s1 Cons.prems(2)]
      from Cons.prems(1) Inr False s1 u1 Cons.IH [OF _ u1] show ?thesis
        by (cases r1) (auto simp: Let_def)
    qed
  qed
qed

lemma delete_unique:
  assumes "delete reg cs inst s = (r, s')" and u: "index_cells_unique s"
  shows "index_cells_unique s'"
proof -
  let ?t = "tableName cs" and ?i = "get_prop inst (identifierProperty cs)"
  obtain r1 s1 where s1: "removeTableIndex ?t ?i s = (r1, s1)"
    by (cases "removeTableIndex ?t ?i s")
  obtain r2 s2 where s2: "removeProperties reg ?t ?i (nonRelationalProperties cs) s1 = (r2, s2)"
    by (cases "removeProperties reg ?t ?i (nonRelationalProperties cs) s1")
  obtain r3 s3 where s3: "removeRelations reg cs (relationalProperties cs) inst ?i s2 = (r3, s3)"
    by (cases "removeRelations reg cs (relationalProperties cs) inst ?i s2")
  note u1 = removeTableIndex_unique [OF s1 u]
  note u2 = removeProperties_unique [OF s2 u1]
  note u3 = removeRelations_unique [OF s3 u2]
  from assms(1) u u1 u2 u3 s1 s2 s3 show ?thesis
    by (cases r1; cases r2) (auto simp: delete_def Let_def split: sum.splits if_splits)
qed

text \<open>The cascade with no condition on errors or specifications.\<close>

lemma cascade_preserves:
  assumes a: "\<And>t i s r s'. addTableIndex t i s = (r, s') \<Longrightarrow> Q s \<Longrightarrow> Q s'"
    and b: "\<And>d src f v i s r s'. addRelationIndex d src f v i s = (r, s') \<Longrightarrow> Q s \<Longrightarrow> Q s'"
    and w: "\<And>k v s. data_cell (keyPrefix @ k) \<Longrightarrow> Q s \<Longrightarrow> Q (driver_write k (Scalar v) s)"
    and q: "Q s"
  shows "create reg cs inst s = (r, s') \<Longrightarrow> Q s'"
    and "update reg cs inst s = (r2, s2) \<Longrightarrow> Q s2"
    and "createOrUpdate reg cs inst s = (r3, s3) \<Longrightarrow> Q s3"
proof -
  have 1: "\<forall>r s'. create reg cs inst s = (r, s') \<longrightarrow> True \<longrightarrow> Q s
             \<longrightarrow> Q s' \<and> (\<forall>e. r = Inl e \<longrightarrow> True)"
    by (rule cascade_generic(2) [where Q = Q and E = "\<lambda>e. True" and G = "\<lambda>reg cs. True"])
       (auto dest: a b intro: w split: sum.splits)
  have 2: "\<forall>r s'. update reg cs inst s = (r, s') \<longrightarrow> True \<longrightarrow> Q s
             \<longrightarrow> Q s' \<and> (\<forall>e. r = Inl e \<longrightarrow> True)"
    by (rule cascade_generic(3) [where Q = Q and E = "\<lambda>e. True" and G = "\<lambda>reg cs. True"])
       (auto dest: a b intro: w split: sum.splits)
  have 3: "\<forall>r s'. createOrUpdate reg cs inst s = (r, s') \<longrightarrow> True \<longrightarrow> Q s
             \<longrightarrow> Q s' \<and> (\<forall>e. r = Inl e \<longrightarrow> True)"
    by (rule cascade_generic(1) [where Q = Q and E = "\<lambda>e. True" and G = "\<lambda>reg cs. True"])
       (auto dest: a b intro: w split: sum.splits)
  from 1 q show "create reg cs inst s = (r, s') \<Longrightarrow> Q s'" by blast
  from 2 q show "update reg cs inst s = (r2, s2) \<Longrightarrow> Q s2" by blast
  from 3 q show "createOrUpdate reg cs inst s = (r3, s3) \<Longrightarrow> Q s3" by blast
qed

lemma create_update_unique:
  assumes u: "index_cells_unique s"
  shows "create reg cs inst s = (r, s') \<Longrightarrow> index_cells_unique s'"
    and "update reg cs inst s = (r2, s2) \<Longrightarrow> index_cells_unique s2"
  by (rule cascade_preserves [where Q = index_cells_unique, OF _ _ _ u];
      (erule (1) addTableIndex_unique addRelationIndex_unique | erule unique_write_scalar
        | assumption))+

lemma run_unique: "index_cells_unique s \<Longrightarrow> index_cells_unique (run reg ops s)"
proof (induction ops arbitrary: s)
  case Nil
  then show ?case by simp
next
  case (Cons op ops)
  have "index_cells_unique (apply_operation reg op s)"
  proof (cases op)
    case (Create c e)
    with Cons.prems create_update_unique(1) [OF Cons.prems] show ?thesis
      by (auto split: sum.splits simp: prod_eq_iff)
  next
    case (Update c e)
    with Cons.prems create_update_unique(2) [OF Cons.prems] show ?thesis
      by (auto split: sum.splits simp: prod_eq_iff)
  next
    case (Delete c e)
    with Cons.prems delete_unique [OF _ Cons.prems] show ?thesis
      by (auto split: sum.splits simp: prod_eq_iff)
  qed
  then show ?case by (simp add: Cons.IH)
qed

lemma getTableIndex_unique:
  "index_cells_unique s \<Longrightarrow> getTableIndex t s = Inr index \<Longrightarrow> is_identifier j
     \<Longrightarrow> count_list index j \<le> 1"
proof -
  assume u: "index_cells_unique s" and g: "getTableIndex t s = Inr index" and j: "is_identifier j"
  have "distinct (filter is_identifier index)"
  proof (cases "truthy (driver_read (getTableIndexKey t) s)")
    case True
    with g have "driver_read (getTableIndexKey t) s = Array index"
      by (auto simp: getTableIndex_def split: jsval.splits)
    from unique_read [OF u this] show ?thesis .
  next
    case False
    with g show ?thesis by (simp add: getTableIndex_def)
  qed
  then have "count_list (filter is_identifier index) j \<le> 1"
    by (rule distinct_count_le_1)
  moreover have "count_list (filter is_identifier index) j = count_list index j"
    using j by (induction index) auto
  ultimately show ?thesis by simp
qed


subsection \<open>Identifiers stay listed\<close>

lemma in_normalised:
  "is_identifier j \<Longrightarrow> j \<in> set xs \<Longrightarrow> j \<in> set (map (\<lambda>x. if x = Undefined then Null else x) xs)"
  by (auto simp: image_iff intro!: bexI [of _ j])

lemma bucket_lists_cell:
  "bucket_lists K j s \<longleftrightarrow> (\<exists>xs. s (keyPrefix @ K) = Some (Text_json (Array xs)) \<and> j \<in> set xs)"
  by (auto simp: bucket_lists_def driver_read_def split: option.splits item.splits jsval.splits)

lemma addTableIndex_lists:
  "addTableIndex t i s = (r, s') \<Longrightarrow> is_identifier j \<Longrightarrow> bucket_lists K j s \<Longrightarrow> bucket_lists K j s'"
  by (auto simp: addTableIndex_def Let_def bucket_lists_cell driver_read_def driver_write_def
        in_normalised
      split: if_splits jsval.splits option.splits item.splits)

lemma addRelationIndex_lists:
  "addRelationIndex d src f v i s = (r, s') \<Longrightarrow> is_identifier j \<Longrightarrow> bucket_lists K j s
     \<Longrightarrow> bucket_lists K j s'"
  by (auto simp: addRelationIndex_def Let_def bucket_lists_cell driver_read_def driver_write_def
        in_normalised
      split: if_splits jsval.splits option.splits item.splits)

lemma write_data_lists:
  "data_cell (keyPrefix @ k) \<Longrightarrow> \<not> data_cell (keyPrefix @ K) \<Longrightarrow> bucket_lists K j s
     \<Longrightarrow> bucket_lists K j (driver_write k (Scalar v) s)"
  by (auto simp: bucket_lists_cell driver_write_def)

lemma addTableIndex_listed:
  "addTableIndex t i s = (Inr u, s') \<Longrightarrow> is_identifier i \<Longrightarrow> bucket_lists (getTableIndexKey t) i s'"
  by (auto simp: addTableIndex_def Let_def bucket_lists_cell driver_read_def driver_write_def
        in_normalised
      split: if_splits jsval.splits option.splits item.splits)

lemma addTableIndex_duplicate:
  "bucket_lists (getTableIndexKey t) i s
     \<Longrightarrow> addTableIndex t i s = (Inl (IndexConstraintViolation i t), s)"
  by (auto simp: addTableIndex_def Let_def bucket_lists_def split: jsval.splits)

lemma writeProperties_lists:
  assumes "writeProperties reg t i ps inst s = (r, s')" and "\<not> data_cell (keyPrefix @ K)"
    and "bucket_lists K j s"
  shows "bucket_lists K j s'"
proof -
  have "bucket_lists K j s' \<and> (\<forall>e. r = Inl e \<longrightarrow> True)"
  proof (rule writeProperties_generic [where Q = "bucket_lists K j" and E = "\<lambda>e. True",
        OF _ _ assms(1,3)])
    show "bucket_lists K j (driver_write k (Scalar v) s)"
      if "data_cell (keyPrefix @ k)" "bucket_lists K j s" for k v s
      using that(1) assms(2) that(2) by (rule write_data_lists)
  qed simp
  then show ?thesis by simp
qed

lemma handle_lists:
  assumes "handleRelationalProperties reg cs (relationalProperties cs) inst i s = (r, s')"
    and j: "is_identifier j" and k: "\<not> data_cell (keyPrefix @ K)" and l: "bucket_lists K j s"
  shows "bucket_lists K j s'"
proof -
  have "\<forall>r s'. handleRelationalProperties reg cs (relationalProperties cs) inst i s = (r, s')
          \<longrightarrow> True \<longrightarrow> set (relationalProperties cs) \<subseteq> set (relationalProperties cs)
          \<longrightarrow> bucket_lists K j s \<longrightarrow> bucket_lists K j s' \<and> (\<forall>e. r = Inl e \<longrightarrow> True)"
    by (rule cascade_generic(4) [where Q = "bucket_lists K j" and E = "\<lambda>e. True"
          and G = "\<lambda>reg cs. True"])
       (auto dest: addTableIndex_lists [OF _ j] addRelationIndex_lists [OF _ j]
             intro: write_data_lists [OF _ k] split: sum.splits)
  with assms(1) l show ?thesis by blast
qed

subsection \<open>Errors of the cascade on a well-formed registry\<close>

lemma typed_read:
  "index_cells_typed s \<Longrightarrow> \<not> data_cell (keyPrefix @ key) \<Longrightarrow> driver_read key s = Scalar x
     \<Longrightarrow> \<not> truthy_scalar x"
  by (auto simp: index_cells_typed_def driver_read_def split: option.splits item.splits)

lemma typed_write_array:
  "index_cells_typed s \<Longrightarrow> index_cells_typed (driver_write key (Array xs) s)"
  by (auto simp: index_cells_typed_def driver_write_def)

lemma typed_write_data:
  "data_cell (keyPrefix @ k) \<Longrightarrow> index_cells_typed s \<Longrightarrow> index_cells_typed (driver_write k v s)"
  by (auto simp: index_cells_typed_def driver_write_def)

lemma addTableIndex_typed:
  "addTableIndex t i s = (r, s') \<Longrightarrow> index_cells_typed s
     \<Longrightarrow> index_cells_typed s' \<and> (\<forall>e. r = Inl e \<longrightarrow> is_violation e)"
  by (auto simp: addTableIndex_def Let_def typed_write_array
        split: if_splits jsval.splits dest: typed_read [OF _ data_cell_simps(1)])

lemma addRelationIndex_typed:
  "addRelationIndex d src f v i s = (r, s') \<Longrightarrow> index_cells_typed s
     \<Longrightarrow> index_cells_typed s' \<and> (\<forall>e. r = Inl e \<longrightarrow> is_violation e)"
  by (auto simp: addRelationIndex_def Let_def typed_write_array
        split: if_splits jsval.splits dest: typed_read [OF _ data_cell_simps(2)])

lemma getTableIndex_typed:
  "index_cells_typed s \<Longrightarrow> getTableIndex t s = Inl e \<Longrightarrow> is_violation e"
  by (auto simp: getTableIndex_def Let_def split: if_splits jsval.splits
        dest: typed_read [OF _ data_cell_simps(1)])

lemma registered_getSpecificationFor:
  "wf_registry reg \<Longrightarrow> getSpecificationFor reg c = Inr cs \<Longrightarrow> registered reg cs"
  by (auto simp: registered_def getSpecificationFor_def image_iff split: option.splits
        dest!: map_of_SomeD intro!: bexI [of _ "(c, cs)"])

lemma registered_getDataKey:
  "registered reg cs \<Longrightarrow> p \<in> set (nonRelationalProperties cs)
     \<Longrightarrow> getDataKey reg (tableName cs) i p = Inl e \<Longrightarrow> is_violation e"
  by (auto simp: registered_def wf_registry_def list_all_iff getDataKey_def
        split: sum.splits if_splits)

lemma registered_relation:
  "registered reg cs \<Longrightarrow> rp \<in> set (relationalProperties cs)
     \<Longrightarrow> (case getSpecificationFor reg (rel_class rp) of
            Inl e \<Rightarrow> is_violation e | Inr rcs \<Rightarrow> registered reg rcs)"
proof -
  assume r: "registered reg cs" and rp: "rp \<in> set (relationalProperties cs)"
  then have wf: "wf_registry reg" by (simp add: registered_def)
  from r obtain entry where "entry \<in> set reg" "cs = snd entry"
    by (auto simp: registered_def)
  with wf rp have "case getSpecificationFor reg (rel_class rp) of
                     Inl e \<Rightarrow> False | Inr rcs \<Rightarrow> True"
    by (auto simp: wf_registry_def list_all_iff)
  then obtain rcs where g: "getSpecificationFor reg (rel_class rp) = Inr rcs"
    by (cases "getSpecificationFor reg (rel_class rp)") auto
  from registered_getSpecificationFor [OF wf g] g show ?thesis by simp
qed

lemma cascade_typed:
  assumes "registered reg cs" and "index_cells_typed s"
  shows "create reg cs inst s = (r, s')
           \<Longrightarrow> index_cells_typed s' \<and> (\<forall>e. r = Inl e \<longrightarrow> is_violation e)"
    and "handleRelationalProperties reg cs (relationalProperties cs) inst i s = (r4, s4)
           \<Longrightarrow> index_cells_typed s4 \<and> (\<forall>e. r4 = Inl e \<longrightarrow> is_violation e)"
proof -
  have 2: "\<forall>r s'. create reg cs inst s = (r, s') \<longrightarrow> registered reg cs \<longrightarrow> index_cells_typed s
             \<longrightarrow> index_cells_typed s' \<and> (\<forall>e. r = Inl e \<longrightarrow> is_violation e)"
    by (rule cascade_generic(2) [where Q = index_cells_typed and E = is_violation
            and G = registered];
        (erule (1) addTableIndex_typed addRelationIndex_typed typed_write_data
           getTableIndex_typed registered_relation
         | erule (2) registered_getDataKey))
  have 4: "\<forall>r s'. handleRelationalProperties reg cs (relationalProperties cs) inst i s = (r, s')
             \<longrightarrow> registered reg cs
             \<longrightarrow> set (relationalProperties cs) \<subseteq> set (relationalProperties cs)
             \<longrightarrow> index_cells_typed s
             \<longrightarrow> index_cells_typed s' \<and> (\<forall>e. r = Inl e \<longrightarrow> is_violation e)"
    by (rule cascade_generic(4) [where Q = index_cells_typed and E = is_violation
            and G = registered];
        (erule (1) addTableIndex_typed addRelationIndex_typed typed_write_data
           getTableIndex_typed registered_relation
         | erule (2) registered_getDataKey))
  from 2 assms
  show "create reg cs inst s = (r, s')
           \<Longrightarrow> index_cells_typed s' \<and> (\<forall>e. r = Inl e \<longrightarrow> is_violation e)"
    by blast
  from 4 assms
  show "handleRelationalProperties reg cs (relationalProperties cs) inst i s = (r4, s4)
           \<Longrightarrow> index_cells_typed s4 \<and> (\<forall>e. r4 = Inl e \<longrightarrow> is_violation e)"
    by blast
qed


text \<open>The steps of a create that succeeds.\<close>

lemma create_steps:
  assumes "create reg cs inst s = (Inr i, s')"
  obtains inst1 s1 s2 where
    "i = get_prop inst (identifierProperty cs)"
    "handleRelationalProperties reg cs (relationalProperties cs) inst i s = (Inr inst1, s1)"
    "addTableIndex (tableName cs) i s1 = (Inr (), s2)"
    "writeProperties reg (tableName cs) i (nonRelationalProperties cs) inst1 s2 = (Inr (), s')"
proof -
  let ?i = "get_prop inst (identifierProperty cs)"
  obtain r1 s1 where s1: "handleRelationalProperties reg cs (relationalProperties cs)
      inst ?i s = (r1, s1)"
    by (cases "handleRelationalProperties reg cs (relationalProperties cs) inst ?i s")
  from assms s1 obtain inst1 where r1: "r1 = Inr inst1"
    by (cases r1) (auto simp: create.simps Let_def)
  obtain r2 s2 where s2: "addTableIndex (tableName cs) ?i s1 = (r2, s2)"
    by (cases "addTableIndex (tableName cs) ?i s1")
  from assms s1 r1 s2 have r2: "r2 = Inr ()"
    by (cases r2) (auto simp: create.simps Let_def)
  obtain r3 s3 where s3: "writeProperties reg (tableName cs) ?i
      (nonRelationalProperties cs) inst1 s2 = (r3, s3)"
    by (cases "writeProperties reg (tableName cs) ?i (nonRelationalProperties cs) inst1 s2")
  from assms s1 r1 s2 r2 s3 have r3: "r3 = Inr ()" "s3 = s'" "i = ?i"
    by (cases r3; auto simp: create.simps Let_def)+
  from s1 r1 s2 r2 s3 r3 show thesis by (intro that) auto
qed

subsection \<open>update without related objects\<close>

lemma addRelationIndex_frame:
  "addRelationIndex d src f v i s = (r, s') \<Longrightarrow> k \<noteq> keyPrefix @ getRelationIndexKey d src f v
     \<Longrightarrow> s' k = s k"
  by (auto simp: addRelationIndex_def Let_def driver_write_cell split: if_splits jsval.splits)

lemma handle_no_related:
  "handleRelationalProperties reg cs rps inst i s = (Inr inst', s')
     \<Longrightarrow> list_all (\<lambda>rp. if isCollection rp
                   then (case map_of (manys inst) (name rp) of None \<Rightarrow> True | Some xs \<Rightarrow> xs = [])
                   else map_of (ones inst) (name rp) = None) rps
     \<Longrightarrow> inst' = inst
         \<and> s' (keyPrefix @ getTableIndexKey (tableName cs))
             = s (keyPrefix @ getTableIndexKey (tableName cs))"
proof (induction rps arbitrary: s)
  case Nil
  then show ?case by simp
next
  case (Cons rp rps)
  from Cons.prems(2) have rest: "list_all (\<lambda>rp. if isCollection rp
                   then (case map_of (manys inst) (name rp) of None \<Rightarrow> True | Some xs \<Rightarrow> xs = [])
                   else map_of (ones inst) (name rp) = None) rps"
    by simp
  show ?case
  proof (cases "isCollection rp")
    case True
    with Cons.prems have "handleRelationalProperties reg cs rps inst i s = (Inr inst', s')"
      by (auto simp: handleRelationalProperties.simps split: option.splits)
    from Cons.IH [OF this rest] show ?thesis .
  next
    case False
    with Cons.prems(2) have none: "map_of (ones inst) (name rp) = None" by simp
    from Cons.prems(1) False obtain rcs where g: "getSpecificationFor reg (rel_class rp) = Inr rcs"
      by (cases "getSpecificationFor reg (rel_class rp)")
         (auto simp: handleRelationalProperties.simps)
    let ?v = "get_prop inst (correspondingIdentifierProperty rp)"
    obtain r2 s2 where s2: "addRelationIndex (tableName rcs) (tableName cs)
        (correspondingIdentifierProperty rp) ?v i s = (r2, s2)"
      by (cases "addRelationIndex (tableName rcs) (tableName cs)
        (correspondingIdentifierProperty rp) ?v i s")
    from Cons.prems(1) False g none s2
    have h: "handleRelationalProperties reg cs rps inst i s2 = (Inr inst', s')"
      by (cases r2) (auto simp: handleRelationalProperties.simps)
    have "keyPrefix @ getTableIndexKey (tableName cs)
            \<noteq> keyPrefix @ getRelationIndexKey (tableName rcs) (tableName cs)
                  (correspondingIdentifierProperty rp) ?v"
      using relation_key_not_table_key_src [of "tableName rcs" "tableName cs"
          "correspondingIdentifierProperty rp" ?v] by (simp add: eq_commute)
    from addRelationIndex_frame [OF s2 this] Cons.IH [OF h rest] show ?thesis by simp
  qed
qed

lemma writeProperties_frame:
  "writeProperties reg t i ps inst s = (r, s')
     \<Longrightarrow> k \<notin> (\<lambda>x. keyPrefix @ x) ` set (data_keys t i ps) \<Longrightarrow> s' k = s k"
proof (induction ps arbitrary: s)
  case Nil
  then show ?case by simp
next
  case (Cons p ps)
  show ?case
  proof (cases "getDataKey reg t i p")
    case (Inl e)
    with Cons.prems show ?thesis by simp
  next
    case (Inr dk)
    from Cons.prems(2) have k1: "k \<noteq> keyPrefix @ dk" and
      k2: "k \<notin> (\<lambda>x. keyPrefix @ x) ` set (data_keys t i ps)"
      using getDataKey_Inr [OF Inr] by (auto simp: data_keys_def)
    from Cons.prems(1) Inr Cons.IH [OF _ k2] k1 show ?thesis
      by (simp add: Let_def driver_write_cell)
  qed
qed

lemma writeProperties_written:
  "writeProperties reg t i ps inst s = (Inr u, s') \<Longrightarrow> p \<in> set ps
     \<Longrightarrow> s' (keyPrefix @ t @ '':'' @ to_string i @ '':'' @ p @ '';'')
         = Some (if truthy_scalar (get_prop inst p) then Text_json (Scalar (get_prop inst p))
                 else Text_empty)"
proof (induction ps arbitrary: s)
  case Nil
  then show ?case by simp
next
  case (Cons p0 ps)
  from Cons.prems(1) obtain dk where dk: "getDataKey reg t i p0 = Inr dk"
    by (cases "getDataKey reg t i p0") auto
  let ?s1 = "driver_write dk
               (Scalar (if get_prop inst p0 = Undefined then Null else get_prop inst p0)) s"
  from Cons.prems(1) dk have w: "writeProperties reg t i ps inst ?s1 = (Inr u, s')"
    by (simp add: Let_def)
  show ?case
  proof (cases "p \<in> set ps")
    case True
    from Cons.IH [OF w True] show ?thesis .
  next
    case False
    with Cons.prems(2) have e: "p = p0" by simp
    have "keyPrefix @ dk \<notin> (\<lambda>x. keyPrefix @ x) ` set (data_keys t i ps)"
      using False getDataKey_Inr [OF dk] by (auto simp: data_keys_def e)
    from writeProperties_frame [OF w this] getDataKey_Inr [OF dk] show ?thesis
      by (cases "get_prop inst p0") (auto simp: driver_write_cell e)
  qed
qed

lemma getTableIndex_cell_cong:
  "s1 (keyPrefix @ getTableIndexKey t) = s2 (keyPrefix @ getTableIndexKey t)
     \<Longrightarrow> getTableIndex t s1 = getTableIndex t s2"
  by (simp add: getTableIndex_def driver_read_def)

section \<open>Storage keys\<close>

text \<open>
  C6.  The table index key is \<^verbatim>\<open>::index-of::{table}-identifiers::\<close>, the relation index key
  is \<^verbatim>\<open>::index-of::{sourceTable}-identifiers::which-has-one::{destTable}::as::{fkField}::with-identifier::{fkValue}::\<close>
  and every scalar data key that is produced is \<^verbatim>\<open>{table}:{id}:{field};\<close>, with identifier
  and foreign-key value rendered as a template literal renders them.
\<close>

theorem storage_key_patterns:
  "getTableIndexKey t = ''::index-of::'' @ t @ ''-identifiers::''
   \<and> getRelationIndexKey destTable sourceTable fkField fkValue =
       ''::index-of::'' @ sourceTable @ ''-identifiers::which-has-one::'' @ destTable @
       ''::as::'' @ fkField @ ''::with-identifier::'' @ to_string fkValue @ ''::''
   \<and> (\<forall>k. getDataKey reg t i field = Inr k \<longrightarrow> k = t @ '':'' @ to_string i @ '':'' @ field @ '';'')
   \<and> (getSpecificationByTableName reg t = Inr cs \<and> field \<in> set (nonRelationalProperties cs)
        \<longrightarrow> getDataKey reg t i field = Inr (t @ '':'' @ to_string i @ '':'' @ field @ '';''))"
  by (auto simp: getTableIndexKey_def getRelationIndexKey_def getDataKey_def
           split: sum.splits if_splits)

theorem storage_key_patterns_witness:
  "getSpecificationByTableName exampleRegistry ''address'' = Inr AddressSpecification
   \<and> ''city'' \<in> set (nonRelationalProperties AddressSpecification)
   \<and> getTableIndexKey ''person'' = ''::index-of::person-identifiers::''
   \<and> getRelationIndexKey ''person'' ''address'' ''personId'' (Str ''1'') =
       ''::index-of::address-identifiers::which-has-one::person::as::personId::with-identifier::1::''
   \<and> getDataKey exampleRegistry ''address'' (Num 1) ''city'' = Inr ''address:1:city;''"
proof -
  have h1: "getSpecificationByTableName exampleRegistry ''address'' = Inr AddressSpecification"
    by code_simp
  have h2: "''city'' \<in> set (nonRelationalProperties AddressSpecification)"
    by code_simp
  have n: "show_int 1 = ''1''"
    by code_simp
  note k = storage_key_patterns [of "''person''" "''person''" "''address''" "''personId''"
      "Str ''1''" exampleRegistry "Num 1" "''city''" AddressSpecification]
  note k2 = storage_key_patterns [of "''address''" "''person''" "''address''" "''personId''"
      "Str ''1''" exampleRegistry "Num 1" "''city''" AddressSpecification]
  from k have a: "getTableIndexKey ''person'' = ''::index-of::person-identifiers::''"
    by simp
  from k have b: "getRelationIndexKey ''person'' ''address'' ''personId'' (Str ''1'') =
       ''::index-of::address-identifiers::which-has-one::person::as::personId::with-identifier::1::''"
    by simp
  from k2 h1 h2 have "getDataKey exampleRegistry ''address'' (Num 1) ''city''
      = Inr (''address'' @ '':'' @ to_string (Num 1) @ '':'' @ ''city'' @ '';'')"
    by blast
  then have c: "getDataKey exampleRegistry ''address'' (Num 1) ''city'' = Inr ''address:1:city;''"
    by (simp add: n)
  from h1 h2 a b c show ?thesis by blast
qed

section \<open>Conditional queries\<close>

text \<open>
  C1.  \<^verbatim>\<open>where(field, predicate)\<close> followed by \<^verbatim>\<open>getAll()\<close> is claimed to return exactly
  the rows whose field satisfies the predicate.  On the table holding the single row John
  the condition \<^verbatim>\<open>name === "Jane"\<close> fails for that row (and \<^verbatim>\<open>first()\<close>, which awaits the
  check, finds nothing), yet \<^verbatim>\<open>getAll()\<close> returns the row: its \<^verbatim>\<open>filter\<close> callback is
  asynchronous.
\<close>

theorem where_getAll_returns_failing_row:
  "getTableIndex ''person'' store_john = Inr [Str ''1'']
   \<and> checkConditionByIndex exampleRegistry PersonSpecification [(''name'', is_Jane)] (Str ''1'') store_john
       = Inr False
   \<and> (case queryable_where PersonSpecification ''name'' is_Jane of
         Inl e \<Rightarrow> Inl e
       | Inr conditions \<Rightarrow>
           cq_getAll exampleRegistry PersonSpecification (IncludeMap []) conditions store_john)
       = Inr [Shadow [(''id'', RVal (Scalar (Str ''1''))), (''age'', RVal (Scalar (Num 30))),
                      (''name'', RVal (Scalar (Str ''John'')))] [''address'']]
   \<and> cq_first exampleRegistry PersonSpecification (IncludeMap []) [(''name'', is_Jane)] store_john
       = Inr None"
  by code_simp

section \<open>Round trip\<close>

text \<open>
  C2.  \<^verbatim>\<open>create(e)\<close> followed by \<^verbatim>\<open>getById(e.id)\<close> is claimed to return every scalar field
  of \<open>e\<close>, also the values \<^verbatim>\<open>false\<close>, \<^verbatim>\<open>0\<close> and the empty string.  For a person of age
  \<^verbatim>\<open>0\<close> and name \<^verbatim>\<open>""\<close> the fetched object has neither field: both read as
  \<^verbatim>\<open>undefined\<close>.
\<close>

theorem create_getById_loses_falsy_scalars:
  "get_prop newborn ''age'' = Num 0 \<and> get_prop newborn ''name'' = Str ''''
   \<and> (case create exampleRegistry PersonSpecification newborn Map.empty of
        (Inl e, s) \<Rightarrow> Inl e
      | (Inr i, s) \<Rightarrow> getById exampleRegistry PersonSpecification (IncludeMap []) i s)
       = Inr (Shadow [(''id'', RVal (Scalar (Str ''3'')))] [''address''])
   \<and> shadow_get (Shadow [(''id'', RVal (Scalar (Str ''3'')))] [''address'']) ''age''
       = Inr (RVal (Scalar Undefined))
   \<and> shadow_get (Shadow [(''id'', RVal (Scalar (Str ''3'')))] [''address'']) ''name''
       = Inr (RVal (Scalar Undefined))"
  by code_simp

text \<open>
  C3.  \<^verbatim>\<open>single()\<close> is claimed to throw exactly when zero or several rows pass the
  conditions.  With the rows John and Jane and the condition \<^verbatim>\<open>name === "Jane"\<close> exactly one
  row passes, yet \<^verbatim>\<open>single()\<close> throws "more than one record"; with John alone no row
  passes, yet \<^verbatim>\<open>single()\<close> returns John.
\<close>

theorem single_throws_with_one_passing_row:
  "getTableIndex ''person'' store_john_jane = Inr [Str ''1'', Str ''2'']
   \<and> map (\<lambda>index. checkConditionByIndex exampleRegistry PersonSpecification [(''name'', is_Jane)]
                    index store_john_jane) [Str ''1'', Str ''2'']
       = [Inr False, Inr True]
   \<and> cq_single exampleRegistry PersonSpecification (IncludeMap []) [(''name'', is_Jane)]
        store_john_jane = Inl MoreThanOneRecord
   \<and> cq_single exampleRegistry PersonSpecification (IncludeMap []) [(''name'', is_Jane)]
        store_john
       = Inr (Shadow [(''id'', RVal (Scalar (Str ''1''))), (''age'', RVal (Scalar (Num 30))),
                      (''name'', RVal (Scalar (Str ''John'')))] [''address''])"
  by code_simp

section \<open>Creating an entity\<close>



section \<open>Deleting an entity\<close>

text \<open>
  C5, as the code has it.  When the identifier of the instance is not in the table index,
  \<^verbatim>\<open>delete\<close> changes nothing.  When it is (and is a string or a number), a \<^verbatim>\<open>delete\<close> that
  succeeds leaves a table index without the identifier, so that \<^verbatim>\<open>getById\<close> fails with
  the not-found error; for every singular relation the bucket keyed by the foreign-key value
  that the instance carries no longer lists the identifier, and for every collection
  relation the bucket keyed by the identifier is gone.
\<close>

theorem delete_cleans_indexes:
  assumes "getTableIndex (tableName cs) s = Inr index"
    and "i = get_prop inst (identifierProperty cs)"
  shows
    "(i \<notin> set index \<longrightarrow> delete reg cs inst s = (Inr (), s))
     \<and> (i \<in> set index \<and> is_identifier i \<longrightarrow>
          (\<forall>s'. delete reg cs inst s = (Inr (), s') \<longrightarrow>
             (\<exists>index'. getTableIndex (tableName cs) s' = Inr index' \<and> i \<notin> set index')
             \<and> getById reg cs includeMap i s' = Inl (NoDataFound i (tableName cs))
             \<and> (\<forall>rp \<in> set (relationalProperties cs).
                  \<forall>rcs. getSpecificationFor reg (rel_class rp) = Inr rcs
                    \<longrightarrow> relation_cleaned cs inst i rp rcs s')))"
proof -
  let ?t = "tableName cs"
  have 1: "delete reg cs inst s = (Inr (), s)" if "i \<notin> set index"
    using that assms by (simp add: delete_def Let_def)
  have 2: "(\<exists>index'. getTableIndex ?t s' = Inr index' \<and> i \<notin> set index')
      \<and> getById reg cs includeMap i s' = Inl (NoDataFound i ?t)
      \<and> (\<forall>rp \<in> set (relationalProperties cs).
            \<forall>rcs. getSpecificationFor reg (rel_class rp) = Inr rcs
              \<longrightarrow> relation_cleaned cs inst i rp rcs s')"
    if mem: "i \<in> set index" and ident: "is_identifier i"
      and d: "delete reg cs inst s = (Inr (), s')" for s'
  proof -
    from mem assms(2) have mem': "get_prop inst (identifierProperty cs) \<in> set index" by simp
    from d assms(1) mem' obtain s1 s2 where
      s1: "removeTableIndex ?t i s = (Inr (), s1)"
      and s2: "removeProperties reg ?t i (nonRelationalProperties cs) s1 = (Inr (), s2)"
      and s3: "removeRelations reg cs (relationalProperties cs) inst i s2 = (Inr (), s')"
      unfolding assms(2) by (rule delete_steps)
    let ?index' = "map (\<lambda>x. if x = Undefined then Null else x) (filter (\<lambda>x. x \<noteq> i) index)"
    let ?tk = "keyPrefix @ getTableIndexKey ?t"
    have c1: "s1 ?tk = Some (Text_json (Array ?index'))"
      by (rule removeTableIndex_listed [OF assms(1) mem s1])
    have c2: "s2 ?tk = s1 ?tk"
      by (rule removeProperties_frame [OF s2 table_key_not_in_data_keys])
    have "?tk \<notin> (\<lambda>x. keyPrefix @ x) ` set (relation_keys reg cs (relationalProperties cs) inst i)"
      using table_key_not_in_relation_keys [of cs reg "relationalProperties cs" inst i] by auto
    from removeRelations_frame [OF s3 this] have c3: "s' ?tk = s2 ?tk" .
    from c1 c2 c3 have g: "getTableIndex ?t s' = Inr ?index'"
      by (simp add: getTableIndex_cell)
    have n: "i \<notin> set ?index'"
      by (rule not_in_normalised [OF ident]) simp
    from g n have a: "\<exists>index'. getTableIndex ?t s' = Inr index' \<and> i \<notin> set index'"
      by blast
    from g n have b: "getById reg cs includeMap i s' = Inl (NoDataFound i ?t)"
      by (simp add: getById_def getById_internal.simps)
    have c: "relation_cleaned cs inst i rp rcs s'"
      if "rp \<in> set (relationalProperties cs)" "getSpecificationFor reg (rel_class rp) = Inr rcs"
      for rp rcs
      by (rule removeRelations_cleaned [OF s3 ident that])
    from a b c show ?thesis by blast
  qed
  from 1 2 show ?thesis by blast
qed

theorem delete_cleans_indexes_witness:
  "getTableIndex (tableName AddressSpecification) store_house = Inr [Str ''7'']
   \<and> Str ''7'' = get_prop house (identifierProperty AddressSpecification)
   \<and> Str ''7'' \<in> set [Str ''7''] \<and> is_identifier (Str ''7'')
   \<and> delete exampleRegistry AddressSpecification house store_house = (Inr (), store_house_deleted)
   \<and> (\<exists>index'. getTableIndex (tableName AddressSpecification) store_house_deleted = Inr index'
                \<and> Str ''7'' \<notin> set index')
   \<and> getById exampleRegistry AddressSpecification (IncludeMap []) (Str ''7'') store_house_deleted
       = Inl (NoDataFound (Str ''7'') (tableName AddressSpecification))"
proof -
  have h1: "getTableIndex (tableName AddressSpecification) store_house = Inr [Str ''7'']"
    by code_simp
  have h2: "Str ''7'' = get_prop house (identifierProperty AddressSpecification)"
    by code_simp
  have h3: "Str ''7'' \<in> set [Str ''7'']" "is_identifier (Str ''7'')"
    by simp_all
  have "fst (delete exampleRegistry AddressSpecification house store_house) = Inr ()"
    by code_simp
  then have h4: "delete exampleRegistry AddressSpecification house store_house
                   = (Inr (), store_house_deleted)"
    by (simp add: store_house_deleted_def prod_eq_iff)
  from delete_cleans_indexes [OF h1 h2, of exampleRegistry "IncludeMap []"] h3 h4
  have "(\<exists>index'. getTableIndex (tableName AddressSpecification) store_house_deleted = Inr index'
                \<and> Str ''7'' \<notin> set index')
   \<and> getById exampleRegistry AddressSpecification (IncludeMap []) (Str ''7'') store_house_deleted
       = Inl (NoDataFound (Str ''7'') (tableName AddressSpecification))"
    by blast
  with h1 h2 h3 h4 show ?thesis by blast
qed

text \<open>
  C5 as stated fails: address 7 is created for person 1 and updated to person 2, so that
  both buckets list it.  Deleting it, with the very instance that was stored last, empties
  the table index and leaves 7 in the bucket of person 1.
\<close>

theorem delete_leaves_identifier_in_old_bucket:
  "getRelationIndex ''person'' ''address'' ''personId'' (Str ''1'') store_house = Inr (Some [Str ''7''])
   \<and> fst (update exampleRegistry AddressSpecification house_moved store_house) = Inr ()
   \<and> getRelationIndex ''person'' ''address'' ''personId'' (Str ''1'') store_moved = Inr (Some [Str ''7''])
   \<and> getRelationIndex ''person'' ''address'' ''personId'' (Str ''2'') store_moved = Inr (Some [Str ''7''])
   \<and> getTableIndex ''address'' store_moved = Inr [Str ''7'']
   \<and> fst (delete exampleRegistry AddressSpecification house_moved store_moved) = Inr ()
   \<and> getTableIndex ''address'' store_moved_deleted = Inr []
   \<and> getRelationIndex ''person'' ''address'' ''personId'' (Str ''1'') store_moved_deleted
       = Inr (Some [Str ''7''])"
  by code_simp

section \<open>Fetching several identifiers\<close>

text \<open>
  C7, as the code has it.  When a requested identifier is absent from the table index,
  \<^verbatim>\<open>getByIds\<close> fails with the missing-ids error whatever loading a record would do.  When
  every identifier is present, it returns exactly the records that loading each identifier
  gives, one per identifier and in the order requested, provided every load succeeds; when
  it fails, the error is that of a load.  With an empty include map and the specification
  registered for its table, every load succeeds.
\<close>

theorem getByIds_all_or_nothing:
  assumes "getTableIndex (tableName cs) s = Inr indexes"
  shows
    "(\<not> set ids \<subseteq> set indexes
        \<longrightarrow> getByIds reg cs im ids s = Inl (MissingIds (tableName cs)))
     \<and> (set ids \<subseteq> set indexes
        \<longrightarrow> (\<forall>rows. getByIds reg cs im ids s = Inr rows
                \<longleftrightarrow> list_all2 (\<lambda>i r. getById_internal reg cs im i True s = Inr r) ids rows)
          \<and> (\<forall>e. getByIds reg cs im ids s = Inl e
                \<longrightarrow> (\<exists>i \<in> set ids. getById_internal reg cs im i True s = Inl e)))
     \<and> (set ids \<subseteq> set indexes \<and> getSpecificationByTableName reg (tableName cs) = Inr cs
        \<longrightarrow> (\<exists>rows. getByIds reg cs (IncludeMap []) ids s = Inr rows
               \<and> length rows = length ids))"
proof -
  have 1: "getByIds reg cs im ids s = Inl (MissingIds (tableName cs))"
    if "\<not> set ids \<subseteq> set indexes"
    using that assms by (auto simp: getByIds.simps)
  have eq: "getByIds reg cs im' ids s = getEach reg cs im' ids s"
    if "set ids \<subseteq> set indexes" for im'
    using that assms by (auto simp: getByIds.simps)
  have 3: "\<exists>rows. getByIds reg cs (IncludeMap []) ids s = Inr rows \<and> length rows = length ids"
    if sub: "set ids \<subseteq> set indexes"
      and reg: "getSpecificationByTableName reg (tableName cs) = Inr cs"
  proof -
    have "\<forall>i. \<exists>r. getById_internal reg cs (IncludeMap []) i True s = Inr r"
      using getById_internal_no_includes [OF reg] by blast
    then obtain f where f: "\<And>i. getById_internal reg cs (IncludeMap []) i True s = Inr (f i)"
      by metis
    have "list_all2 (\<lambda>i r. getById_internal reg cs (IncludeMap []) i True s = Inr r) ids (map f ids)"
      by (simp add: list_all2_conv_all_nth f)
    then have "getEach reg cs (IncludeMap []) ids s = Inr (map f ids)"
      by (simp add: getEach_Inr_iff)
    then show ?thesis by (simp add: eq [OF sub])
  qed
  from 1 3 show ?thesis
    by (auto simp: eq getEach_Inr_iff dest: getEach_Inl)
qed

theorem getByIds_all_or_nothing_witness:
  "getTableIndex (tableName PersonSpecification) store_john_jane = Inr [Str ''1'', Str ''2'']
   \<and> \<not> set [Str ''2'', Str ''9''] \<subseteq> set [Str ''1'', Str ''2'']
   \<and> getByIds exampleRegistry PersonSpecification (IncludeMap []) [Str ''2'', Str ''9''] store_john_jane
       = Inl (MissingIds ''person'')
   \<and> set [Str ''2'', Str ''1''] \<subseteq> set [Str ''1'', Str ''2'']
   \<and> getSpecificationByTableName exampleRegistry (tableName PersonSpecification)
       = Inr PersonSpecification
   \<and> (\<exists>rows. getByIds exampleRegistry PersonSpecification (IncludeMap []) [Str ''2'', Str ''1'']
                store_john_jane = Inr rows \<and> length rows = Suc (Suc 0))"
proof -
  have h: "getTableIndex (tableName PersonSpecification) store_john_jane = Inr [Str ''1'', Str ''2'']"
    by code_simp
  have n: "\<not> set [Str ''2'', Str ''9''] \<subseteq> set [Str ''1'', Str ''2'']"
    by simp
  have y: "set [Str ''2'', Str ''1''] \<subseteq> set [Str ''1'', Str ''2'']"
    by simp
  have g: "getSpecificationByTableName exampleRegistry (tableName PersonSpecification)
       = Inr PersonSpecification"
    by code_simp
  have t: "tableName PersonSpecification = ''person''"
    by (simp add: PersonSpecification_def)
  from getByIds_all_or_nothing [OF h, of "[Str ''2'', Str ''9'']" exampleRegistry "IncludeMap []"] n
  have a: "getByIds exampleRegistry PersonSpecification (IncludeMap []) [Str ''2'', Str ''9'']
             store_john_jane = Inl (MissingIds ''person'')"
    by (simp add: t)
  from getByIds_all_or_nothing [OF h, of "[Str ''2'', Str ''1'']" exampleRegistry "IncludeMap []"] y g
  have "\<exists>rows. getByIds exampleRegistry PersonSpecification (IncludeMap []) [Str ''2'', Str ''1'']
                store_john_jane = Inr rows \<and> length rows = length [Str ''2'', Str ''1'']"
    by blast
  then have b: "\<exists>rows. getByIds exampleRegistry PersonSpecification (IncludeMap [])
                [Str ''2'', Str ''1''] store_john_jane = Inr rows \<and> length rows = Suc (Suc 0)"
    by simp
  from h n a y g b show ?thesis by blast
qed

text \<open>
  C7 as stated fails: person 1 is in the person index, but the relation index still lists
  address 7, which is gone from the address index; fetching person 1 with its addresses
  included fails.
\<close>

theorem getByIds_fails_with_every_id_present:
  "getTableIndex ''person'' store_stale = Inr [Str ''1'']
   \<and> getByIds exampleRegistry PersonSpecification (IncludeMap [(''address'', IncludeMap [])])
        [Str ''1''] store_stale = Inl (MissingIds ''address'')"
  by code_simp

section \<open>The guarded view\<close>




section \<open>Updating an entity\<close>






end
